theory Spec2Isabelle
  imports Main "HOL-Library.Word"
begin

unbundle bit_operations_syntax

section \<open>Bytes, numbers and errors\<close>

text \<open>
  A \<^verbatim>\<open>Uint8Array\<close>, an \<^verbatim>\<open>ArrayBuffer\<close> and the content of a \<^verbatim>\<open>Blob\<close> are lists of
  bytes. The 32-bit integers that JavaScript's bitwise operators compute on are
  \<open>32 word\<close>: \<^verbatim>\<open>~\<close>, \<^verbatim>\<open>^\<close>, \<^verbatim>\<open>&\<close> work on the bit pattern and \<^verbatim>\<open>>>>\<close> is the logical
  shift. Lengths, sizes and offsets are natural numbers; what a \<^verbatim>\<open>DataView\<close> stores
  of them is written out with \<open>mod\<close>.
\<close>

type_synonym byte = "8 word"

type_synonym u32 = "32 word"

text \<open>
  A JavaScript string is a sequence of 16-bit code units; the empty string is the
  only falsy one.
\<close>

type_synonym js_string = "16 word list"

text \<open>
  Every \<^verbatim>\<open>throw\<close> of the sources, and the two exceptions that the host raises
  in them: \<^verbatim>\<open>RangeError\<close> for an access outside a \<^verbatim>\<open>DataView\<close> or an
  \<^verbatim>\<open>ArrayBuffer\<close>, \<^verbatim>\<open>TypeError\<close> for a property read on \<^verbatim>\<open>undefined\<close>. The
  two signature errors that quote an offset in their message carry it.
\<close>

datatype error =
    RangeError
  | TypeError
  | InvalidFooterSignature
  | InvalidDirectoryEntrySignature nat
  | InvalidLocalHeaderSignature nat
  | ResponseBodyMissing
  | InvalidContentLength
  | NegativeContentLength

text \<open>Sequencing of calls that may throw: the first exception ends the computation.\<close>

definition ebind :: "error + 'a \<Rightarrow> ('a \<Rightarrow> error + 'b) \<Rightarrow> error + 'b" where
  "ebind m f = (case m of Inl e \<Rightarrow> Inl e | Inr x \<Rightarrow> f x)"

subsection \<open>DataView\<close>

text \<open>
  A \<^verbatim>\<open>DataView\<close> is a window of \<open>byteLength\<close> bytes at \<open>byteOffset\<close> of its buffer.
  All accesses of the sources are little-endian. A getter throws \<^verbatim>\<open>RangeError\<close>
  unless the whole field lies inside the window; a setter stores its argument modulo
  \<open>2 ^ 16\<close> or \<open>2 ^ 32\<close>.
\<close>

record DataView =
  dv_buffer :: "byte list"
  dv_byteOffset :: nat
  dv_byteLength :: nat

definition DataView_new :: "byte list \<Rightarrow> DataView" where
  "DataView_new buffer = \<lparr>dv_buffer = buffer, dv_byteOffset = 0, dv_byteLength = length buffer\<rparr>"

definition le_value :: "byte list \<Rightarrow> nat" where
  "le_value bs = foldr (\<lambda>b acc. unat b + 256 * acc) bs 0"

definition le16 :: "nat \<Rightarrow> byte list" where
  "le16 v = [word_of_nat v, word_of_nat (v div 256)]"

definition le32 :: "nat \<Rightarrow> byte list" where
  "le32 v = [word_of_nat v, word_of_nat (v div 256), word_of_nat (v div 65536),
             word_of_nat (v div 16777216)]"

definition getBytes :: "DataView \<Rightarrow> nat \<Rightarrow> nat \<Rightarrow> error + byte list" where
  "getBytes view byteOffset n =
     (if byteOffset + n \<le> dv_byteLength view
      then Inr (take n (drop (dv_byteOffset view + byteOffset) (dv_buffer view)))
      else Inl RangeError)"

definition getUint16 :: "DataView \<Rightarrow> nat \<Rightarrow> error + nat" where
  "getUint16 view byteOffset = ebind (getBytes view byteOffset 2) (\<lambda>bs. Inr (le_value bs))"

definition getUint32 :: "DataView \<Rightarrow> nat \<Rightarrow> error + nat" where
  "getUint32 view byteOffset = ebind (getBytes view byteOffset 4) (\<lambda>bs. Inr (le_value bs))"

definition setBytes :: "nat \<Rightarrow> byte list \<Rightarrow> DataView \<Rightarrow> error + DataView" where
  "setBytes byteOffset bs view =
     (if byteOffset + length bs \<le> dv_byteLength view
      then Inr (view\<lparr>dv_buffer :=
             take (dv_byteOffset view + byteOffset) (dv_buffer view) @ bs @
             drop (dv_byteOffset view + byteOffset + length bs) (dv_buffer view)\<rparr>)
      else Inl RangeError)"

definition setUint16 :: "nat \<Rightarrow> nat \<Rightarrow> DataView \<Rightarrow> error + DataView" where
  "setUint16 byteOffset v view = setBytes byteOffset (le16 v) view"

definition setUint32 :: "nat \<Rightarrow> nat \<Rightarrow> DataView \<Rightarrow> error + DataView" where
  "setUint32 byteOffset v view = setBytes byteOffset (le32 v) view"

text \<open>\<^verbatim>\<open>new DataView(new ArrayBuffer(n))\<close>: a fresh buffer holds zeros.\<close>

definition ArrayBuffer_new :: "nat \<Rightarrow> byte list" where
  "ArrayBuffer_new n = replicate n 0"

text \<open>
  \<^verbatim>\<open>new Uint8Array(buffer, byteOffset, length)\<close> throws \<^verbatim>\<open>RangeError\<close> unless the
  range lies inside the buffer. Indexing a typed array outside \<open>0 \<le> i < length\<close>
  gives \<^verbatim>\<open>undefined\<close>.
\<close>

definition Uint8Array_new :: "byte list \<Rightarrow> nat \<Rightarrow> nat \<Rightarrow> error + byte list" where
  "Uint8Array_new buffer byteOffset n =
     (if byteOffset + n \<le> length buffer then Inr (take n (drop byteOffset buffer))
      else Inl RangeError)"

definition Uint8Array_get :: "byte list \<Rightarrow> int \<Rightarrow> byte option" where
  "Uint8Array_get arr i = (if 0 \<le> i \<and> i < int (length arr) then Some (arr ! nat i) else None)"

text \<open>
  \<^verbatim>\<open>blob.slice(start, end)\<close>: a negative index counts from the end, and both ends
  are clamped to the blob.
\<close>

definition Blob_slice :: "byte list \<Rightarrow> int \<Rightarrow> int \<Rightarrow> byte list" where
  "Blob_slice blob start end' =
     (let size' = int (length blob);
          relativeStart = (if start < 0 then max (size' + start) 0 else min start size');
          relativeEnd = (if end' < 0 then max (size' + end') 0 else min end' size');
          span = max (relativeEnd - relativeStart) 0
      in take (nat span) (drop (nat relativeStart) blob))"

subsection \<open>The host\<close>

text \<open>
  The platform functions that the sources call and that are no part of them: the UTF-8
  encoder and decoder, the chunks in which a blob streams its bytes, the two
  \<^verbatim>\<open>deflate-raw\<close> transforms (from the chunks written to the chunks read), and
  \<^verbatim>\<open>parseInt\<close> (\<open>None\<close> is \<^verbatim>\<open>NaN\<close>). A stream is the list of the chunks it
  delivers before it closes.
\<close>

record host =
  TextEncoder_encode :: "js_string \<Rightarrow> byte list"
  TextDecoder_decode :: "byte list \<Rightarrow> js_string"
  Blob_stream :: "byte list \<Rightarrow> byte list list"
  CompressionStream :: "byte list list \<Rightarrow> byte list list"
  DecompressionStream :: "byte list list \<Rightarrow> byte list list"
  parseInt :: "js_string \<Rightarrow> int option"

section \<open>crc32.ts\<close>

text \<open>
  The table is filled once, at module initialisation: entry \<open>i\<close> is \<open>i\<close> after eight
  rounds of shift and conditional xor with the reflected polynomial.
\<close>

definition table_step :: "u32 \<Rightarrow> u32" where
  "table_step t = (if t AND 1 \<noteq> 0 then drop_bit 1 t XOR 0xedb88320 else drop_bit 1 t)"

definition table :: "u32 list" where
  "table = map (\<lambda>i. (table_step ^^ 8) (word_of_nat i)) [0..<256]"

text \<open>One round of the loop over \<^verbatim>\<open>data\<close>: \<^verbatim>\<open>x = (x >>> 8) ^ table[(x ^ data[i]) & 0xff]\<close>.\<close>

definition crc32_byte :: "byte \<Rightarrow> u32 \<Rightarrow> u32" where
  "crc32_byte b x = drop_bit 8 x XOR table ! unat ((x XOR ucast b) AND 0xff)"

definition crc32 :: "u32 \<Rightarrow> byte list \<Rightarrow> u32" where
  "crc32 crc data = NOT (fold crc32_byte data (NOT crc))"

section \<open>write.ts\<close>

definition toUtf8 :: "host \<Rightarrow> js_string \<Rightarrow> byte list" where
  "toUtf8 h str = TextEncoder_encode h str"

record ZipEntryOptions =
  compressed :: "bool option"

text \<open>
  \<^verbatim>\<open>BuildOptions\<close> holds two optional callbacks of the caller. The model records
  which of them are given, and every call made to them, in order, with its arguments.
\<close>

record BuildOptions =
  progress :: bool
  entryProgress :: bool

datatype call =
    progress_call int int
  | entryProgress_call nat int int

subsection \<open>ZipEntry\<close>

text \<open>
  The entry's fields, as the class declares them. \<open>compressedStream\<close> is the chain of
  transforms that the constructor sets up; its state is what the source stream has
  still to deliver (\<open>we_source\<close>), what the first transform has passed on
  (\<open>we_enqueued\<close>) and whether a compression stage follows (\<open>we_deflate\<close>).
  \<open>progressCallback\<close> is only ever set by \<^verbatim>\<open>build\<close>, to a closure over the entry's
  index: the field holds that index.
\<close>

record ZipEntry =
  we_rawName :: "byte list"
  we_flags :: nat
  we_method :: nat
  we_compressedSize :: nat
  we_uncompressedSize :: nat
  we_streamSizeGuess :: int
  we_crc32 :: u32
  we_source :: "byte list list"
  we_enqueued :: "byte list list"
  we_deflate :: bool
  we_progressCallback :: "nat option"

definition ZipEntry_new ::
  "host \<Rightarrow> js_string \<Rightarrow> byte list list \<Rightarrow> int option \<Rightarrow> ZipEntryOptions option \<Rightarrow> ZipEntry" where
  "ZipEntry_new h name stream streamSizeGuess options =
     (let compressed' = (case options of None \<Rightarrow> True
                         | Some opts \<Rightarrow> (case compressed opts of None \<Rightarrow> True | Some c \<Rightarrow> c))
      in \<lparr>we_rawName = toUtf8 h name,
          we_flags = 0x0800,
          we_method = (if compressed' then 8 else 0),
          we_compressedSize = 0,
          we_uncompressedSize = 0,
          we_streamSizeGuess = (case streamSizeGuess of None \<Rightarrow> 0 | Some g \<Rightarrow> g),
          we_crc32 = 0,
          we_source = stream,
          we_enqueued = [],
          we_deflate = compressed',
          we_progressCallback = None\<rparr>)"

text \<open>
  What the callbacks share: the array \<^verbatim>\<open>entryProgress\<close> of \<^verbatim>\<open>build\<close> (\<open>None\<close> when
  it is \<^verbatim>\<open>undefined\<close>) and the calls made so far to the caller's callbacks.
\<close>

record ByteProgress =
  bytesWritten :: int
  totalBytes :: int

record callback_state =
  cs_entryProgress :: "ByteProgress list option"
  cs_calls :: "call list"

text \<open>
  The closure that \<^verbatim>\<open>build\<close> installs as \<^verbatim>\<open>entry.progressCallback\<close>, for the entry at
  \<open>index\<close>. Reading \<^verbatim>\<open>entryProgress![index]\<close> when \<^verbatim>\<open>entryProgress\<close> is \<^verbatim>\<open>undefined\<close>
  throws \<^verbatim>\<open>TypeError\<close>, and so does \<^verbatim>\<open>Object.assign\<close> on a missing element. The
  result is the exception thrown, if any, and the state left behind.
\<close>

definition progressCallback ::
  "BuildOptions option \<Rightarrow> nat \<Rightarrow> int \<Rightarrow> int \<Rightarrow> callback_state \<Rightarrow> error option \<times> callback_state" where
  "progressCallback options index bytesWritten' totalBytes' st =
     (let st1 = (if (case options of None \<Rightarrow> False | Some opts \<Rightarrow> entryProgress opts)
                 then st\<lparr>cs_calls := cs_calls st @ [entryProgress_call index bytesWritten' totalBytes']\<rparr>
                 else st)
      in case cs_entryProgress st1 of
           None \<Rightarrow> (Some TypeError, st1)
         | Some arr \<Rightarrow>
             if index < length arr then
               (let arr' = arr[index := \<lparr>bytesWritten = bytesWritten', totalBytes = totalBytes'\<rparr>];
                    totalBytesWritten = fold (\<lambda>p sum. sum + bytesWritten p) arr' 0;
                    totalBytesExpected = fold (\<lambda>p sum. sum + totalBytes p) arr' 0;
                    st2 = st1\<lparr>cs_entryProgress := Some arr'\<rparr>
                in (None,
                    if (case options of None \<Rightarrow> False | Some opts \<Rightarrow> progress opts)
                    then st2\<lparr>cs_calls := cs_calls st2 @ [progress_call totalBytesWritten totalBytesExpected]\<rparr>
                    else st2))
             else (Some TypeError, st1))"

text \<open>
  The first transform of the chain, on one chunk: count, report, checksum, pass on. An
  exception of the callback leaves the fields as they are at that point.
\<close>

definition transform ::
  "BuildOptions option \<Rightarrow> byte list \<Rightarrow> ZipEntry \<Rightarrow> callback_state
     \<Rightarrow> error option \<times> ZipEntry \<times> callback_state" where
  "transform options chunk entry st =
     (let entry1 = entry\<lparr>we_uncompressedSize := we_uncompressedSize entry + length chunk\<rparr>;
          totalBytes' = max (we_streamSizeGuess entry1) (int (we_uncompressedSize entry1));
          (thrown, st1) = (case we_progressCallback entry1 of
                             None \<Rightarrow> (None, st)
                           | Some index \<Rightarrow>
                               progressCallback options index (int (we_uncompressedSize entry1))
                                 totalBytes' st)
      in case thrown of
           Some e \<Rightarrow> (Some e, entry1, st1)
         | None \<Rightarrow>
             (None,
              entry1\<lparr>we_crc32 := crc32 (we_crc32 entry1) chunk,
                     we_enqueued := we_enqueued entry1 @ [chunk]\<rparr>,
              st1))"

text \<open>The source stream delivers its next chunk, if it has one, to the first transform.\<close>

definition pump ::
  "BuildOptions option \<Rightarrow> ZipEntry \<Rightarrow> callback_state \<Rightarrow> error option \<times> ZipEntry \<times> callback_state" where
  "pump options entry st =
     (case we_source entry of
        [] \<Rightarrow> (None, entry, st)
      | chunk # rest \<Rightarrow> transform options chunk (entry\<lparr>we_source := rest\<rparr>) st)"

text \<open>Reading the stream to its end: every chunk left, in order, until one throws.\<close>

fun drain ::
  "BuildOptions option \<Rightarrow> byte list list \<Rightarrow> ZipEntry \<Rightarrow> callback_state
     \<Rightarrow> error option \<times> ZipEntry \<times> callback_state" where
  "drain options [] entry st = (None, entry\<lparr>we_source := []\<rparr>, st)"
| "drain options (chunk # rest) entry st =
     (case transform options chunk (entry\<lparr>we_source := rest\<rparr>) st of
        (Some e, entry', st') \<Rightarrow> (Some e, entry', st')
      | (None, entry', st') \<Rightarrow> drain options rest entry' st')"

text \<open>
  The chunks that leave the chain once the source has closed: those the first transform
  passed on, through the compression stage if there is one. The last transform adds
  the length of each to \<open>compressedSize\<close>.
\<close>

definition compressedStream :: "host \<Rightarrow> ZipEntry \<Rightarrow> byte list list" where
  "compressedStream h entry =
     (if we_deflate entry then CompressionStream h (we_enqueued entry) else we_enqueued entry)"

definition account :: "byte list \<Rightarrow> ZipEntry \<Rightarrow> ZipEntry" where
  "account chunk entry = entry\<lparr>we_compressedSize := we_compressedSize entry + length chunk\<rparr>"

definition entrySize :: "ZipEntry \<Rightarrow> nat" where
  "entrySize entry = 30 + length (we_rawName entry) + we_compressedSize entry"

definition entryHeader :: "ZipEntry \<Rightarrow> error + DataView" where
  "entryHeader entry =
     (let pathLength = length (we_rawName entry);
          header = DataView_new (ArrayBuffer_new 30)
      in ebind (setUint32 0 0x04034b50 header) (\<lambda>header.
         ebind (setUint16 4 0x0014 header) (\<lambda>header.
         ebind (setUint16 6 (we_flags entry) header) (\<lambda>header.
         ebind (setUint16 8 (we_method entry) header) (\<lambda>header.
         ebind (setUint16 10 0x0000 header) (\<lambda>header.
         ebind (setUint16 12 0x0000 header) (\<lambda>header.
         ebind (setUint32 14 (unat (we_crc32 entry)) header) (\<lambda>header.
         ebind (setUint32 18 (we_compressedSize entry) header) (\<lambda>header.
         ebind (setUint32 22 (we_uncompressedSize entry) header) (\<lambda>header.
         ebind (setUint16 26 pathLength header) (\<lambda>header.
         setUint16 28 0x0000 header)))))))))))"

text \<open>
  \<^verbatim>\<open>entryParts\<close> reads the chain to its end (\<^verbatim>\<open>new Response(...).blob()\<close> joins the
  chunks), then writes the header from the fields as they stand.
\<close>

definition entryParts ::
  "host \<Rightarrow> BuildOptions option \<Rightarrow> ZipEntry \<Rightarrow> callback_state
     \<Rightarrow> (error + byte list list) \<times> ZipEntry \<times> callback_state" where
  "entryParts h options entry st =
     (case drain options (we_source entry) entry st of
        (Some e, entry', st') \<Rightarrow> (Inl e, entry', st')
      | (None, entry', st') \<Rightarrow>
          (let out = compressedStream h entry';
               entry'' = fold account out entry';
               data = concat out
           in (ebind (entryHeader entry'') (\<lambda>header.
                 Inr [dv_buffer header, we_rawName entry'', data]),
               entry'', st')))"

definition directorySize :: "ZipEntry \<Rightarrow> nat" where
  "directorySize entry = 46 + length (we_rawName entry)"

definition directoryParts :: "ZipEntry \<Rightarrow> nat \<Rightarrow> error + byte list list" where
  "directoryParts entry entryHeaderOffset =
     (let header = DataView_new (ArrayBuffer_new 46)
      in ebind (setUint32 0 0x02014b50 header) (\<lambda>header.
         ebind (setUint16 4 0x0014 header) (\<lambda>header.
         ebind (setUint16 6 0x0014 header) (\<lambda>header.
         ebind (setUint16 8 (we_flags entry) header) (\<lambda>header.
         ebind (setUint16 10 (we_method entry) header) (\<lambda>header.
         ebind (setUint16 12 0x0000 header) (\<lambda>header.
         ebind (setUint16 14 0x0000 header) (\<lambda>header.
         ebind (setUint32 16 (unat (we_crc32 entry)) header) (\<lambda>header.
         ebind (setUint32 20 (we_compressedSize entry) header) (\<lambda>header.
         ebind (setUint32 24 (we_uncompressedSize entry) header) (\<lambda>header.
         ebind (setUint16 28 (length (we_rawName entry)) header) (\<lambda>header.
         ebind (setUint16 30 0x0000 header) (\<lambda>header.
         ebind (setUint16 32 0x0000 header) (\<lambda>header.
         ebind (setUint16 34 0x0000 header) (\<lambda>header.
         ebind (setUint16 36 0x0000 header) (\<lambda>header.
         ebind (setUint32 38 0x00000000 header) (\<lambda>header.
         ebind (setUint32 42 entryHeaderOffset header) (\<lambda>header.
         Inr [dv_buffer header, we_rawName entry]))))))))))))))))))"

subsection \<open>ZipSource\<close>

record ZipSource =
  zs_stream :: "byte list list"
  zs_expectedSize :: "int option"

definition ZipSource_new :: "byte list list \<Rightarrow> int option \<Rightarrow> ZipSource" where
  "ZipSource_new stream expectedSize = \<lparr>zs_stream = stream, zs_expectedSize = expectedSize\<rparr>"

definition fromBlob :: "host \<Rightarrow> byte list \<Rightarrow> ZipSource" where
  "fromBlob h blob = ZipSource_new (Blob_stream h blob) (Some (int (length blob)))"

text \<open>\<^verbatim>\<open>new Blob([data])\<close> holds the UTF-8 encoding of the string.\<close>

definition fromString :: "host \<Rightarrow> js_string \<Rightarrow> ZipSource" where
  "fromString h data = fromBlob h (TextEncoder_encode h data)"

text \<open>
  What \<^verbatim>\<open>fromResponse\<close> reads of a \<^verbatim>\<open>Response\<close>: its body stream (\<open>None\<close> when
  \<^verbatim>\<open>null\<close>) and the \<^verbatim>\<open>Content-Length\<close> header (\<open>None\<close> when \<^verbatim>\<open>headers.get\<close>
  gives \<^verbatim>\<open>null\<close>). \<open>rs_ok\<close> is the response's \<^verbatim>\<open>ok\<close> flag.
\<close>

record Response =
  rs_body :: "byte list list option"
  rs_contentLength :: "js_string option"
  rs_ok :: bool

definition fromResponse :: "host \<Rightarrow> Response \<Rightarrow> error + ZipSource" where
  "fromResponse h response =
     (case rs_body response of
        None \<Rightarrow> Inl ResponseBodyMissing
      | Some body \<Rightarrow>
          ebind
            (case rs_contentLength response of
               None \<Rightarrow> Inr None
             | Some contentLength \<Rightarrow>
                 if contentLength \<noteq> [] then
                   (case parseInt h contentLength of
                      None \<Rightarrow> Inl InvalidContentLength
                    | Some contentLengthInt \<Rightarrow>
                        if contentLengthInt < 0 then Inl NegativeContentLength
                        else Inr (Some contentLengthInt))
                 else Inr None)
            (\<lambda>expectedSize. Inr (ZipSource_new body expectedSize)))"

subsection \<open>ZipWriter\<close>

record ZipWriter =
  entries :: "ZipEntry list"

definition ZipWriter_new :: ZipWriter where
  "ZipWriter_new = \<lparr>entries = []\<rparr>"

definition add :: "host \<Rightarrow> js_string \<Rightarrow> ZipSource \<Rightarrow> ZipEntryOptions option \<Rightarrow> ZipWriter \<Rightarrow> ZipWriter" where
  "add h name data options w =
     w\<lparr>entries := entries w @ [ZipEntry_new h name (zs_stream data) (zs_expectedSize data) options]\<rparr>"

definition addString :: "host \<Rightarrow> js_string \<Rightarrow> js_string \<Rightarrow> ZipEntryOptions option \<Rightarrow> ZipWriter \<Rightarrow> ZipWriter" where
  "addString h name data options w = add h name (fromString h data) options w"

definition addBlob :: "host \<Rightarrow> js_string \<Rightarrow> byte list \<Rightarrow> ZipEntryOptions option \<Rightarrow> ZipWriter \<Rightarrow> ZipWriter" where
  "addBlob h name blob options w = add h name (fromBlob h blob) options w"

definition addResponse ::
  "host \<Rightarrow> js_string \<Rightarrow> Response \<Rightarrow> ZipEntryOptions option \<Rightarrow> ZipWriter \<Rightarrow> error + ZipWriter" where
  "addResponse h name response options w =
     ebind (fromResponse h response) (\<lambda>data. Inr (add h name data options w))"

text \<open>
  \<^verbatim>\<open>build\<close> starts every entry's \<^verbatim>\<open>entryParts\<close> under \<^verbatim>\<open>Promise.all\<close>: the chains
  run interleaved, and which source delivers the next chunk is the host's choice. The
  schedule \<open>sched\<close> is that choice: the indices of the entries in the order in which
  their sources deliver one chunk each. \<^verbatim>\<open>Promise.all\<close> rejects with the first
  exception.
\<close>

fun run_schedule ::
  "BuildOptions option \<Rightarrow> nat list \<Rightarrow> ZipEntry list \<Rightarrow> callback_state
     \<Rightarrow> error option \<times> ZipEntry list \<times> callback_state" where
  "run_schedule options [] es st = (None, es, st)"
| "run_schedule options (index # sched) es st =
     (if index < length es then
        (case pump options (es ! index) st of
           (Some e, entry', st') \<Rightarrow> (Some e, es[index := entry'], st')
         | (None, entry', st') \<Rightarrow> run_schedule options sched (es[index := entry']) st')
      else run_schedule options sched es st)"

text \<open>
  Every \<^verbatim>\<open>entryParts\<close> then runs to its end (each reads what its source has left), and
  the parts are pushed in the order of the entries.
\<close>

fun all_entryParts ::
  "host \<Rightarrow> BuildOptions option \<Rightarrow> ZipEntry list \<Rightarrow> callback_state
     \<Rightarrow> (error + byte list list) \<times> ZipEntry list \<times> callback_state" where
  "all_entryParts h options [] st = (Inr [], [], st)"
| "all_entryParts h options (entry # rest) st =
     (case entryParts h options entry st of
        (Inl e, entry', st') \<Rightarrow> (Inl e, entry' # rest, st')
      | (Inr entryParts', entry', st') \<Rightarrow>
          (case all_entryParts h options rest st' of
             (Inl e, rest', st'') \<Rightarrow> (Inl e, entry' # rest', st'')
           | (Inr parts, rest', st'') \<Rightarrow> (Inr (entryParts' @ parts), entry' # rest', st'')))"

text \<open>The loop over the entries that pushes the directory: parts, offset, directorySize.\<close>

fun directoryLoop ::
  "ZipEntry list \<Rightarrow> byte list list \<times> nat \<times> nat \<Rightarrow> error + byte list list \<times> nat \<times> nat" where
  "directoryLoop [] acc = Inr acc"
| "directoryLoop (entry # rest) (parts, offset, directorySize') =
     ebind (directoryParts entry offset) (\<lambda>directoryParts'.
       directoryLoop rest
         (parts @ directoryParts', offset + entrySize entry, directorySize' + directorySize entry))"

definition buildFooter :: "nat \<Rightarrow> nat \<Rightarrow> nat \<Rightarrow> error + DataView" where
  "buildFooter n directorySize' offset =
     (let footer = DataView_new (ArrayBuffer_new 22)
      in ebind (setUint32 0 0x06054b50 footer) (\<lambda>footer.
         ebind (setUint16 4 0x0000 footer) (\<lambda>footer.
         ebind (setUint16 6 0x0000 footer) (\<lambda>footer.
         ebind (setUint16 8 n footer) (\<lambda>footer.
         ebind (setUint16 10 n footer) (\<lambda>footer.
         ebind (setUint32 12 directorySize' footer) (\<lambda>footer.
         ebind (setUint32 16 offset footer) (\<lambda>footer.
         setUint16 20 0x0000 footer))))))))"

text \<open>
  The result of \<^verbatim>\<open>build\<close>: the bytes of the blob or the exception, the writer with
  its entries as the run leaves them, and the callbacks' state.
\<close>

definition build ::
  "host \<Rightarrow> BuildOptions option \<Rightarrow> nat list \<Rightarrow> ZipWriter
     \<Rightarrow> (error + byte list) \<times> ZipWriter \<times> callback_state" where
  "build h options sched w =
     (let wantProgress = (case options of None \<Rightarrow> False | Some opts \<Rightarrow> progress opts);
          wantEntryProgress = (case options of None \<Rightarrow> False | Some opts \<Rightarrow> entryProgress opts);
          entryProgress' =
            (if wantProgress
             then Some (map (\<lambda>entry. \<lparr>bytesWritten = 0, totalBytes = we_streamSizeGuess entry\<rparr>)
                         (entries w))
             else None);
          st0 = \<lparr>cs_entryProgress = entryProgress', cs_calls = []\<rparr>;
          es0 = (if wantProgress \<or> wantEntryProgress
                 then map (\<lambda>(index, entry). entry\<lparr>we_progressCallback := Some index\<rparr>)
                        (enumerate 0 (entries w))
                 else entries w)
      in case run_schedule options sched es0 st0 of
           (Some e, es1, st1) \<Rightarrow> (Inl e, w\<lparr>entries := es1\<rparr>, st1)
         | (None, es1, st1) \<Rightarrow>
             (case all_entryParts h options es1 st1 of
                (Inl e, es2, st2) \<Rightarrow> (Inl e, w\<lparr>entries := es2\<rparr>, st2)
              | (Inr parts, es2, st2) \<Rightarrow>
                  (ebind (directoryLoop es2 (parts, 0, 0)) (\<lambda>(parts, offset, directorySize').
                   ebind (buildFooter (length es2) directorySize' offset) (\<lambda>footer.
                   Inr (concat (parts @ [dv_buffer footer])))),
                   w\<lparr>entries := es2\<rparr>, st2)))"

section \<open>read.ts\<close>

definition fromUtf8 :: "host \<Rightarrow> byte list \<Rightarrow> js_string" where
  "fromUtf8 h data = TextDecoder_decode h data"

subsection \<open>ZipData\<close>

text \<open>\<^verbatim>\<open>ZipData\<close> wraps the blob, here its bytes.\<close>

definition ZipData_size :: "byte list \<Rightarrow> nat" where
  "ZipData_size blob = length blob"

definition ZipData_slice :: "byte list \<Rightarrow> int \<Rightarrow> int \<Rightarrow> byte list" where
  "ZipData_slice blob offset size' = Blob_slice blob offset (offset + size')"

definition ZipData_bytes :: "byte list \<Rightarrow> int \<Rightarrow> int \<Rightarrow> byte list" where
  "ZipData_bytes blob offset size' = ZipData_slice blob offset size'"

definition ZipData_view :: "byte list \<Rightarrow> int \<Rightarrow> int \<Rightarrow> DataView" where
  "ZipData_view blob offset size' = DataView_new (ZipData_slice blob offset size')"

subsection \<open>ZipFooter\<close>

record ZipFooter =
  ft_diskNumber :: nat
  ft_diskStart :: nat
  ft_diskEntries :: nat
  ft_totalEntries :: nat
  ft_directorySize :: nat
  ft_directoryOffset :: nat
  ft_commentLength :: nat

definition ZipFooter_SIGNATURE :: nat where
  "ZipFooter_SIGNATURE = 0x06054b50"

definition ZipFooter_SIZE :: nat where
  "ZipFooter_SIZE = 22"

definition ZipFooter_new :: "DataView \<Rightarrow> error + ZipFooter" where
  "ZipFooter_new view =
     ebind (getUint32 view 0) (\<lambda>signature.
     if signature \<noteq> ZipFooter_SIGNATURE then Inl InvalidFooterSignature
     else
     ebind (getUint16 view 4) (\<lambda>diskNumber.
     ebind (getUint16 view 6) (\<lambda>diskStart.
     ebind (getUint16 view 8) (\<lambda>diskEntries.
     ebind (getUint16 view 10) (\<lambda>totalEntries.
     ebind (getUint32 view 12) (\<lambda>directorySize'.
     ebind (getUint32 view 16) (\<lambda>directoryOffset.
     ebind (getUint16 view 20) (\<lambda>commentLength.
     Inr \<lparr>ft_diskNumber = diskNumber, ft_diskStart = diskStart,
          ft_diskEntries = diskEntries, ft_totalEntries = totalEntries,
          ft_directorySize = directorySize', ft_directoryOffset = directoryOffset,
          ft_commentLength = commentLength\<rparr>))))))))"

definition ZipFooter_read :: "byte list \<Rightarrow> error + ZipFooter" where
  "ZipFooter_read data =
     ZipFooter_new (ZipData_view data (int (ZipData_size data) - int ZipFooter_SIZE) (int ZipFooter_SIZE))"

subsection \<open>ZipDirectory and ZipDirectoryEntry\<close>

record ZipDirectory =
  zd_footer :: ZipFooter
  zd_data :: DataView

definition ZipDirectory_read :: "byte list \<Rightarrow> error + ZipDirectory" where
  "ZipDirectory_read data =
     ebind (ZipFooter_read data) (\<lambda>footer.
       Inr \<lparr>zd_footer = footer,
            zd_data = ZipData_view data (int (ft_directoryOffset footer))
                        (int (ft_directorySize footer))\<rparr>)"

record ZipDirectoryEntry =
  de_versionCreated :: nat
  de_versionNeeded :: nat
  de_flags :: nat
  de_compressionMethod :: nat
  de_dosTime :: nat
  de_dosDate :: nat
  de_crc32 :: nat
  de_compressedSize :: nat
  de_uncompressedSize :: nat
  de_diskNumberStart :: nat
  de_internalFileAttributes :: nat
  de_externalFileAttributes :: nat
  de_relativeOffset :: nat
  de_rawName :: "byte list"
  de_rawExtraField :: "byte list"
  de_rawComment :: "byte list"

definition ZipDirectoryEntry_SIGNATURE :: nat where
  "ZipDirectoryEntry_SIGNATURE = 0x02014b50"

definition ZipDirectoryEntry_SIZE :: nat where
  "ZipDirectoryEntry_SIZE = 46"

definition ZipDirectoryEntry_new :: "DataView \<Rightarrow> nat \<Rightarrow> error + ZipDirectoryEntry" where
  "ZipDirectoryEntry_new data offset =
     ebind (getUint32 data offset) (\<lambda>signature.
     if signature \<noteq> ZipDirectoryEntry_SIGNATURE then Inl (InvalidDirectoryEntrySignature offset)
     else
     ebind (getUint16 data (offset + 4)) (\<lambda>versionCreated.
     ebind (getUint16 data (offset + 6)) (\<lambda>versionNeeded.
     ebind (getUint16 data (offset + 8)) (\<lambda>flags.
     ebind (getUint16 data (offset + 10)) (\<lambda>compressionMethod.
     ebind (getUint16 data (offset + 12)) (\<lambda>dosTime.
     ebind (getUint16 data (offset + 14)) (\<lambda>dosDate.
     ebind (getUint32 data (offset + 16)) (\<lambda>crc32'.
     ebind (getUint32 data (offset + 20)) (\<lambda>compressedSize.
     ebind (getUint32 data (offset + 24)) (\<lambda>uncompressedSize.
     ebind (getUint16 data (offset + 28)) (\<lambda>fileNameLength.
     ebind (getUint16 data (offset + 30)) (\<lambda>extraFieldLength.
     ebind (getUint16 data (offset + 32)) (\<lambda>fileCommentLength.
     ebind (getUint16 data (offset + 34)) (\<lambda>diskNumberStart.
     ebind (getUint16 data (offset + 36)) (\<lambda>internalFileAttributes.
     ebind (getUint32 data (offset + 38)) (\<lambda>externalFileAttributes.
     ebind (getUint32 data (offset + 42)) (\<lambda>relativeOffset.
     let sliceStart = dv_byteOffset data + offset + ZipDirectoryEntry_SIZE in
     ebind (Uint8Array_new (dv_buffer data) sliceStart fileNameLength) (\<lambda>rawName.
     let sliceStart = sliceStart + fileNameLength in
     ebind (Uint8Array_new (dv_buffer data) sliceStart extraFieldLength) (\<lambda>rawExtraField.
     let sliceStart = sliceStart + extraFieldLength in
     ebind (Uint8Array_new (dv_buffer data) sliceStart fileCommentLength) (\<lambda>rawComment.
     Inr \<lparr>de_versionCreated = versionCreated, de_versionNeeded = versionNeeded,
          de_flags = flags, de_compressionMethod = compressionMethod,
          de_dosTime = dosTime, de_dosDate = dosDate, de_crc32 = crc32',
          de_compressedSize = compressedSize, de_uncompressedSize = uncompressedSize,
          de_diskNumberStart = diskNumberStart,
          de_internalFileAttributes = internalFileAttributes,
          de_externalFileAttributes = externalFileAttributes,
          de_relativeOffset = relativeOffset,
          de_rawName = rawName, de_rawExtraField = rawExtraField,
          de_rawComment = rawComment\<rparr>))))))))))))))))))))"

definition isDirectory :: "ZipDirectoryEntry \<Rightarrow> bool" where
  "isDirectory entry =
     (Uint8Array_get (de_rawName entry) (int (length (de_rawName entry)) - 1) = Some 0x2f
      \<and> de_uncompressedSize entry = 0)"

definition ZipDirectoryEntry_name :: "host \<Rightarrow> ZipDirectoryEntry \<Rightarrow> js_string" where
  "ZipDirectoryEntry_name h entry = fromUtf8 h (de_rawName entry)"

definition ZipDirectoryEntry_comment :: "host \<Rightarrow> ZipDirectoryEntry \<Rightarrow> js_string" where
  "ZipDirectoryEntry_comment h entry = fromUtf8 h (de_rawComment entry)"

definition directoryEntrySize :: "ZipDirectoryEntry \<Rightarrow> nat" where
  "directoryEntrySize entry =
     ZipDirectoryEntry_SIZE + length (de_rawName entry) + length (de_rawExtraField entry)
       + length (de_rawComment entry)"

text \<open>
  The generator \<^verbatim>\<open>entries\<close>: the entries it yields, in order, and the exception that
  ends it, if any. An entry is yielded before the next one is parsed, so the entries
  before a malformed one are delivered. The cursor moves by at least 46 bytes a round.
\<close>

function ZipDirectory_entries_from :: "DataView \<Rightarrow> nat \<Rightarrow> ZipDirectoryEntry list \<times> error option" where
  "ZipDirectory_entries_from data dataOffset =
     (if dataOffset < dv_byteLength data then
        (case ZipDirectoryEntry_new data dataOffset of
           Inl e \<Rightarrow> ([], Some e)
         | Inr entry \<Rightarrow>
             (case ZipDirectory_entries_from data (dataOffset + directoryEntrySize entry) of
                (rest, thrown) \<Rightarrow> (entry # rest, thrown)))
      else ([], None))"
  by pat_completeness auto

termination
  by (relation "measure (\<lambda>(data, dataOffset). dv_byteLength data - dataOffset)")
     (auto simp: directoryEntrySize_def ZipDirectoryEntry_SIZE_def)

definition ZipDirectory_entries :: "ZipDirectory \<Rightarrow> ZipDirectoryEntry list \<times> error option" where
  "ZipDirectory_entries dir = ZipDirectory_entries_from (zd_data dir) 0"

subsection \<open>ZipLocalHeader\<close>

record ZipLocalHeader =
  lh_versionNeeded :: nat
  lh_flags :: nat
  lh_method :: nat
  lh_dosTime :: nat
  lh_dosDate :: nat
  lh_crc32 :: nat
  lh_compressedSize :: nat
  lh_uncompressedSize :: nat
  lh_fileNameLength :: nat
  lh_extraFieldLength :: nat

definition ZipLocalHeader_SIGNATURE :: nat where
  "ZipLocalHeader_SIGNATURE = 0x04034b50"

definition ZipLocalHeader_SIZE :: nat where
  "ZipLocalHeader_SIZE = 30"

definition fromData :: "DataView \<Rightarrow> nat \<Rightarrow> error + ZipLocalHeader" where
  "fromData data offset =
     ebind (getUint32 data offset) (\<lambda>signature.
     if signature \<noteq> ZipLocalHeader_SIGNATURE then Inl (InvalidLocalHeaderSignature offset)
     else
     ebind (getUint16 data (offset + 4)) (\<lambda>versionNeeded.
     ebind (getUint16 data (offset + 6)) (\<lambda>flags.
     ebind (getUint16 data (offset + 8)) (\<lambda>method'.
     ebind (getUint16 data (offset + 10)) (\<lambda>dosTime.
     ebind (getUint16 data (offset + 12)) (\<lambda>dosDate.
     ebind (getUint32 data (offset + 14)) (\<lambda>crc32'.
     ebind (getUint32 data (offset + 18)) (\<lambda>compressedSize.
     ebind (getUint32 data (offset + 22)) (\<lambda>uncompressedSize.
     ebind (getUint16 data (offset + 26)) (\<lambda>fileNameLength.
     ebind (getUint16 data (offset + 28)) (\<lambda>extraFieldLength.
     Inr \<lparr>lh_versionNeeded = versionNeeded, lh_flags = flags, lh_method = method',
          lh_dosTime = dosTime, lh_dosDate = dosDate, lh_crc32 = crc32',
          lh_compressedSize = compressedSize, lh_uncompressedSize = uncompressedSize,
          lh_fileNameLength = fileNameLength,
          lh_extraFieldLength = extraFieldLength\<rparr>)))))))))))"

definition ZipLocalHeader_fromDirectoryEntry :: "ZipDirectoryEntry \<Rightarrow> ZipLocalHeader" where
  "ZipLocalHeader_fromDirectoryEntry entry =
     \<lparr>lh_versionNeeded = de_versionNeeded entry, lh_flags = de_flags entry,
      lh_method = de_compressionMethod entry, lh_dosTime = de_dosTime entry,
      lh_dosDate = de_dosDate entry, lh_crc32 = de_crc32 entry,
      lh_compressedSize = de_compressedSize entry,
      lh_uncompressedSize = de_uncompressedSize entry,
      lh_fileNameLength = length (de_rawName entry),
      lh_extraFieldLength = length (de_rawExtraField entry)\<rparr>"

definition ZipLocalHeader_size :: "ZipLocalHeader \<Rightarrow> nat" where
  "ZipLocalHeader_size header = ZipLocalHeader_SIZE + lh_fileNameLength header + lh_extraFieldLength header"

subsection \<open>ZipEntry (read side) and ZipReader\<close>

record ReadEntry =
  re_header :: ZipLocalHeader
  re_rawName :: "byte list"
  re_rawExtraField :: "byte list"
  re_compressedData :: "byte list"

definition ZipEntry_fromDirectoryEntry :: "byte list \<Rightarrow> ZipDirectoryEntry \<Rightarrow> ReadEntry" where
  "ZipEntry_fromDirectoryEntry data entry =
     (let header = ZipLocalHeader_fromDirectoryEntry entry;
          compressedDataOffset = de_relativeOffset entry + ZipLocalHeader_SIZE
            + length (de_rawName entry) + length (de_rawExtraField entry);
          compressedData = ZipData_slice data (int compressedDataOffset) (int (de_compressedSize entry))
      in \<lparr>re_header = header, re_rawName = de_rawName entry,
          re_rawExtraField = de_rawExtraField entry, re_compressedData = compressedData\<rparr>)"

definition ZipEntry_name :: "host \<Rightarrow> ReadEntry \<Rightarrow> js_string" where
  "ZipEntry_name h entry = fromUtf8 h (re_rawName entry)"

definition ZipEntry_compressedStream :: "host \<Rightarrow> ReadEntry \<Rightarrow> byte list list" where
  "ZipEntry_compressedStream h entry = Blob_stream h (re_compressedData entry)"

definition uncompressedStream :: "host \<Rightarrow> ReadEntry \<Rightarrow> byte list list" where
  "uncompressedStream h entry =
     (if lh_method (re_header entry) = 0 then Blob_stream h (re_compressedData entry)
      else DecompressionStream h (Blob_stream h (re_compressedData entry)))"

text \<open>
  The asynchronous generator \<^verbatim>\<open>ZipReader.entries\<close>: the entries yielded and the
  exception that ends the iteration, if any.
\<close>

definition ZipReader_entries :: "byte list \<Rightarrow> ReadEntry list \<times> error option" where
  "ZipReader_entries data =
     (case ZipDirectory_read data of
        Inl e \<Rightarrow> ([], Some e)
      | Inr dir \<Rightarrow>
          (case ZipDirectory_entries dir of
             (dirEntries, thrown) \<Rightarrow> (map (ZipEntry_fromDirectoryEntry data) dirEntries, thrown)))"

section \<open>Notions used in the statements\<close>

subsection \<open>Fields of a byte sequence\<close>

text \<open>The little-endian fields of 2 and of 4 bytes at a position of a byte sequence.\<close>

definition u16 :: "byte list \<Rightarrow> nat \<Rightarrow> nat" where
  "u16 bs k = le_value (take 2 (drop k bs))"

definition u32 :: "byte list \<Rightarrow> nat \<Rightarrow> nat" where
  "u32 bs k = le_value (take 4 (drop k bs))"

subsection \<open>A host for the examples\<close>

text \<open>
  Code units below 128 are their own UTF-8 encoding, a blob streams as one chunk (an
  empty blob as none), compression reverses the bytes, and so does decompression;
  \<^verbatim>\<open>parseInt\<close> reads an optional minus sign and decimal digits.
\<close>

fun digits_value :: "js_string \<Rightarrow> int \<Rightarrow> int option" where
  "digits_value [] acc = Some acc"
| "digits_value (c # cs) acc =
     (if 0x30 \<le> c \<and> c \<le> 0x39 then digits_value cs (10 * acc + int (unat c) - 48) else None)"

definition parseInt_decimal :: "js_string \<Rightarrow> int option" where
  "parseInt_decimal s =
     (case s of
        [] \<Rightarrow> None
      | c # cs \<Rightarrow>
          if c = 0x2d then (if cs = [] then None else map_option uminus (digits_value cs 0))
          else digits_value s 0)"

definition ascii_host :: host where
  "ascii_host =
     \<lparr>TextEncoder_encode = map ucast,
      TextDecoder_decode = map ucast,
      Blob_stream = (\<lambda>blob. if blob = [] then [] else [blob]),
      CompressionStream = (\<lambda>chunks. [rev (concat chunks)]),
      DecompressionStream = (\<lambda>chunks. [rev (concat chunks)]),
      parseInt = parseInt_decimal\<rparr>"

subsection \<open>The states of an entry\<close>

text \<open>
  The states that an entry made by the constructor can be in: \<^verbatim>\<open>build\<close> may have set
  its \<^verbatim>\<open>progressCallback\<close>, and its source may have delivered chunks to the first
  transform without an exception.
\<close>

inductive evolves :: "ZipEntry \<Rightarrow> ZipEntry \<Rightarrow> bool" where
  evolves_new: "evolves e e"
| evolves_callback: "evolves e0 e \<Longrightarrow> evolves e0 (e\<lparr>we_progressCallback := cb\<rparr>)"
| evolves_pump: "evolves e0 e \<Longrightarrow> pump options e st = (None, e', st') \<Longrightarrow> evolves e0 e'"

text \<open>
  What such steps keep: name, flags, method and size hint, the chunks of the source in
  their order, and the count and the checksum that the first transform will have reached
  once the source is read to its end. The first transform never touches \<open>compressedSize\<close>.
\<close>

definition advances :: "ZipEntry \<Rightarrow> ZipEntry \<Rightarrow> bool" where
  "advances e0 e \<longleftrightarrow>
     we_rawName e = we_rawName e0 \<and> we_flags e = we_flags e0 \<and> we_method e = we_method e0 \<and>
     we_deflate e = we_deflate e0 \<and> we_streamSizeGuess e = we_streamSizeGuess e0 \<and>
     we_compressedSize e = we_compressedSize e0 \<and>
     we_enqueued e @ we_source e = we_enqueued e0 @ we_source e0 \<and>
     we_uncompressedSize e + length (concat (we_source e))
       = we_uncompressedSize e0 + length (concat (we_source e0)) \<and>
     crc32 (we_crc32 e) (concat (we_source e)) = crc32 (we_crc32 e0) (concat (we_source e0))"

subsection \<open>The bytes of an archive\<close>

text \<open>
  The bytes that leave an entry's chain, and the headers and the footer that the writer
  puts around them, field by field in little-endian order.
\<close>

definition entry_data :: "host \<Rightarrow> ZipEntry \<Rightarrow> byte list" where
  "entry_data h e = concat (compressedStream h e)"

definition local_header :: "ZipEntry \<Rightarrow> byte list" where
  "local_header e =
     le32 0x04034b50 @ le16 0x0014 @ le16 (we_flags e) @ le16 (we_method e) @ le16 0 @ le16 0 @
     le32 (unat (we_crc32 e)) @ le32 (we_compressedSize e) @ le32 (we_uncompressedSize e) @
     le16 (length (we_rawName e)) @ le16 0"

definition central_header :: "ZipEntry \<Rightarrow> nat \<Rightarrow> byte list" where
  "central_header e off =
     le32 0x02014b50 @ le16 0x0014 @ le16 0x0014 @ le16 (we_flags e) @ le16 (we_method e) @
     le16 0 @ le16 0 @ le32 (unat (we_crc32 e)) @ le32 (we_compressedSize e) @
     le32 (we_uncompressedSize e) @ le16 (length (we_rawName e)) @ le16 0 @ le16 0 @ le16 0 @
     le16 0 @ le32 0 @ le32 off"

fun central_directory :: "ZipEntry list \<Rightarrow> nat \<Rightarrow> byte list" where
  "central_directory [] off = []"
| "central_directory (e # es) off =
     central_header e off @ we_rawName e @ central_directory es (off + entrySize e)"

definition footer_bytes :: "nat \<Rightarrow> nat \<Rightarrow> nat \<Rightarrow> byte list" where
  "footer_bytes n ds off =
     le32 0x06054b50 @ le16 0 @ le16 0 @ le16 n @ le16 n @ le32 ds @ le32 off @ le16 0"

definition local_bytes :: "host \<Rightarrow> ZipEntry \<Rightarrow> byte list" where
  "local_bytes h e = local_header e @ we_rawName e @ entry_data h e"

text \<open>
  \<open>completes h e e'\<close>: \<open>e'\<close> is \<open>e\<close> with its chain read to the end, the last transform
  having counted the bytes that left the chain.
\<close>

definition completes :: "host \<Rightarrow> ZipEntry \<Rightarrow> ZipEntry \<Rightarrow> bool" where
  "completes h e e' \<longleftrightarrow>
     advances e (e'\<lparr>we_compressedSize := we_compressedSize e\<rparr>) \<and> we_source e' = [] \<and>
     we_compressedSize e' = we_compressedSize e + length (entry_data h e')"

text \<open>
  An installed callback can be called without an exception when the array that it
  indexes exists and has an element at the entry's index.
\<close>

definition table_length :: "callback_state \<Rightarrow> nat option" where
  "table_length st = map_option length (cs_entryProgress st)"

definition callback_safe :: "nat option \<Rightarrow> ZipEntry \<Rightarrow> bool" where
  "callback_safe tlen e =
     (case we_progressCallback e of
        None \<Rightarrow> True
      | Some i \<Rightarrow> (case tlen of None \<Rightarrow> False | Some n \<Rightarrow> i < n))"

subsection \<open>The central directory record of the specification\<close>

text \<open>
  The wire format of a central directory record as the specification of the archive
  format lays it out: the signature \<open>0x02014B50\<close>, six fields of two bytes, three of four
  bytes, the lengths of name, extra field and comment, two fields of two bytes, two of
  four bytes, 46 bytes in all, then the name, the extra field and the comment.
  \<open>encode_record\<close> is written from that layout and not from \<^verbatim>\<open>read.ts\<close>; a
  well-formed directory is a concatenation of such records whose three variable parts
  have lengths that fit their fields. \<open>parsed_record\<close> is the entry that a reader should
  make of a record.
\<close>

record CentralDirectoryRecord =
  cd_versionMadeBy :: nat
  cd_versionNeeded :: nat
  cd_flags :: nat
  cd_method :: nat
  cd_modTime :: nat
  cd_modDate :: nat
  cd_crc32 :: nat
  cd_compressedSize :: nat
  cd_uncompressedSize :: nat
  cd_diskNumberStart :: nat
  cd_internalAttributes :: nat
  cd_externalAttributes :: nat
  cd_localHeaderOffset :: nat
  cd_name :: "byte list"
  cd_extra :: "byte list"
  cd_comment :: "byte list"

definition encode_record_header :: "CentralDirectoryRecord \<Rightarrow> byte list" where
  "encode_record_header r =
     le32 0x02014b50 @ le16 (cd_versionMadeBy r) @ le16 (cd_versionNeeded r) @
     le16 (cd_flags r) @ le16 (cd_method r) @ le16 (cd_modTime r) @ le16 (cd_modDate r) @
     le32 (cd_crc32 r) @ le32 (cd_compressedSize r) @ le32 (cd_uncompressedSize r) @
     le16 (length (cd_name r)) @ le16 (length (cd_extra r)) @ le16 (length (cd_comment r)) @
     le16 (cd_diskNumberStart r) @ le16 (cd_internalAttributes r) @
     le32 (cd_externalAttributes r) @ le32 (cd_localHeaderOffset r)"

definition encode_record :: "CentralDirectoryRecord \<Rightarrow> byte list" where
  "encode_record r = encode_record_header r @ cd_name r @ cd_extra r @ cd_comment r"

definition well_formed_record :: "CentralDirectoryRecord \<Rightarrow> bool" where
  "well_formed_record r \<longleftrightarrow>
     length (cd_name r) < 65536 \<and> length (cd_extra r) < 65536 \<and> length (cd_comment r) < 65536"

definition parsed_record :: "CentralDirectoryRecord \<Rightarrow> ZipDirectoryEntry" where
  "parsed_record r =
     \<lparr>de_versionCreated = cd_versionMadeBy r mod 65536,
      de_versionNeeded = cd_versionNeeded r mod 65536,
      de_flags = cd_flags r mod 65536,
      de_compressionMethod = cd_method r mod 65536,
      de_dosTime = cd_modTime r mod 65536,
      de_dosDate = cd_modDate r mod 65536,
      de_crc32 = cd_crc32 r mod 4294967296,
      de_compressedSize = cd_compressedSize r mod 4294967296,
      de_uncompressedSize = cd_uncompressedSize r mod 4294967296,
      de_diskNumberStart = cd_diskNumberStart r mod 65536,
      de_internalFileAttributes = cd_internalAttributes r mod 65536,
      de_externalFileAttributes = cd_externalAttributes r mod 4294967296,
      de_relativeOffset = cd_localHeaderOffset r mod 4294967296,
      de_rawName = cd_name r, de_rawExtraField = cd_extra r, de_rawComment = cd_comment r\<rparr>"

subsection \<open>Writers and their entries\<close>

text \<open>
  The writer made by \<^verbatim>\<open>new ZipWriter()\<close> and one call of \<^verbatim>\<open>add\<close> for each item, in
  order; and what the entry of an item has become once its chain has been read to the
  end.
\<close>

definition added :: "host \<Rightarrow> (js_string \<times> ZipSource \<times> ZipEntryOptions option) list \<Rightarrow> ZipWriter" where
  "added h items = fold (\<lambda>(nm, data, options). add h nm data options) items ZipWriter_new"

definition wants_deflate :: "ZipEntryOptions option \<Rightarrow> bool" where
  "wants_deflate options =
     (case options of None \<Rightarrow> True
      | Some opts \<Rightarrow> (case compressed opts of None \<Rightarrow> True | Some c \<Rightarrow> c))"

definition finished :: "host \<Rightarrow> js_string \<times> ZipSource \<times> ZipEntryOptions option \<Rightarrow> ZipEntry \<Rightarrow> bool" where
  "finished h item e \<longleftrightarrow>
     (case item of (nm, data, options) \<Rightarrow>
        we_rawName e = toUtf8 h nm \<and> we_flags e = 0x0800 \<and>
        we_deflate e = wants_deflate options \<and>
        we_method e = (if wants_deflate options then 8 else 0) \<and>
        we_source e = [] \<and> we_enqueued e = zs_stream data \<and>
        we_uncompressedSize e = length (concat (zs_stream data)) \<and>
        we_crc32 e = crc32 0 (concat (zs_stream data)) \<and>
        we_compressedSize e = length (entry_data h e))"

text \<open>A record with a name, an extra field and a comment, for the examples.\<close>

definition example_record :: CentralDirectoryRecord where
  "example_record =
     \<lparr>cd_versionMadeBy = 0x031e, cd_versionNeeded = 0x14, cd_flags = 0, cd_method = 8,
      cd_modTime = 0x7d1c, cd_modDate = 0x354b, cd_crc32 = 0x7d90e1a6,
      cd_compressedSize = 0x45, cd_uncompressedSize = 0x4a, cd_diskNumberStart = 0,
      cd_internalAttributes = 1, cd_externalAttributes = 0x81a40000,
      cd_localHeaderOffset = 0,
      cd_name = [0x66, 0x69, 0x6c, 0x65, 0x31], cd_extra = [0x55, 0x78, 0, 0],
      cd_comment = [0x6f, 0x6b]\<rparr>"

text \<open>
  The records that \<^verbatim>\<open>directoryParts\<close> writes for the entries of a writer, the first of
  them at local header offset \<open>off\<close>.
\<close>

definition record_of_entry :: "ZipEntry \<Rightarrow> nat \<Rightarrow> CentralDirectoryRecord" where
  "record_of_entry e off =
     \<lparr>cd_versionMadeBy = 0x0014, cd_versionNeeded = 0x0014, cd_flags = we_flags e,
      cd_method = we_method e, cd_modTime = 0, cd_modDate = 0, cd_crc32 = unat (we_crc32 e),
      cd_compressedSize = we_compressedSize e, cd_uncompressedSize = we_uncompressedSize e,
      cd_diskNumberStart = 0, cd_internalAttributes = 0, cd_externalAttributes = 0,
      cd_localHeaderOffset = off,
      cd_name = we_rawName e, cd_extra = [], cd_comment = []\<rparr>"

fun directory_records :: "ZipEntry list \<Rightarrow> nat \<Rightarrow> CentralDirectoryRecord list" where
  "directory_records [] off = []"
| "directory_records (e # es) off = record_of_entry e off # directory_records es (off + entrySize e)"

subsection \<open>The CRC-32/ISO-HDLC checksum\<close>

text \<open>
  The checksum bit by bit, from its parameters: the polynomial \<open>0x04C11DB7\<close> in
  reflected form, \<open>0xEDB88320\<close>; the register starts at \<open>0xFFFFFFFF\<close>; every byte is
  xored into the low end of the register, which is then shifted right eight times, the
  polynomial being xored in whenever a one is shifted out; the result is the register
  xored with \<open>0xFFFFFFFF\<close>.
\<close>

definition reflected_round :: "u32 \<Rightarrow> u32" where
  "reflected_round x = (if bit x 0 then drop_bit 1 x XOR 0xedb88320 else drop_bit 1 x)"

definition crc32_iso_hdlc :: "byte list \<Rightarrow> u32" where
  "crc32_iso_hdlc data =
     fold (\<lambda>b x. (reflected_round ^^ 8) (x XOR ucast b)) data 0xFFFFFFFF XOR 0xFFFFFFFF"

section \<open>Properties of crc32\<close>

lemma crc32_Nil: "crc32 crc [] = crc"
  by (simp add: crc32_def)

lemma crc32_append: "crc32 crc (xs @ ys) = crc32 (crc32 crc xs) ys"
  by (simp add: crc32_def)

lemma fold_crc32_concat:
  "fold (\<lambda>chunk crc. crc32 crc chunk) chunks crc = crc32 crc (concat chunks)"
  by (induction chunks arbitrary: crc) (simp_all add: crc32_Nil crc32_append)

text \<open>
  Evaluation of the checksum. The check value of CRC-32/ISO-HDLC is the checksum of the
  nine digits \<^verbatim>\<open>123456789\<close>.
\<close>

lemma funpow8: "(f ^^ 8) x = f (f (f (f (f (f (f (f x)))))))"
  by (simp add: eval_nat_numeral)

lemma table_nth: "i < 256 \<Longrightarrow> table ! i = (table_step ^^ 8) (word_of_nat i)"
  by (simp add: table_def)

lemmas crc_eval = crc32_byte_def table_nth funpow8 table_step_def

lemma not0: "NOT (0 :: u32) = 4294967295"
  by simp

lemma crc32_start: "crc32 0 data = NOT (fold crc32_byte data 4294967295)"
  by (simp only: crc32_def not0)

lemma crc32_World: "crc32 0 [0x57, 0x6f, 0x72, 0x6c, 0x64] = 0xfbb63e47"
  by (simp add: crc32_start) (simp add: crc_eval)

lemma crc32_check: "crc32 0 [0x31, 0x32, 0x33, 0x34, 0x35, 0x36, 0x37, 0x38, 0x39] = 0xCBF43926"
  by (simp add: crc32_start) (simp add: crc_eval)

lemma crc32_xy: "crc32 0 [0x78, 0x79] = 0x8FE62899"
  by (simp add: crc32_start) (simp add: crc_eval)

lemma crc32_x: "crc32 0 [0x78] = 0x8CDC1683"
  by (simp add: crc32_start) (simp add: crc_eval)

lemma crc32_yz: "crc32 (crc32 0 [0x79]) [0x7a] = 0x0FF44862"
  unfolding crc32_append [symmetric] by (simp add: crc32_start) (simp add: crc_eval)

lemma crc32_yz_chunk: "crc32 0 [0x79, 0x7a] = 0x0FF44862"
  by (simp add: crc32_start) (simp add: crc_eval)

text \<open>
  The table entry for a byte is the byte after eight rounds, and a round acts on the
  high part of the register by shifting alone: looking up the low byte and shifting the
  rest by eight is eight rounds on the whole register.
\<close>

lemma table_step_round: "table_step = reflected_round"
proof
  fix t :: u32
  have "(t AND 1 \<noteq> 0) = bit t 0"
    by (simp add: and_one_eq bit_0 mod_2_eq_odd)
  then show "table_step t = reflected_round t"
    by (simp add: table_step_def reflected_round_def)
qed

lemma drop_bit_xor_word: "drop_bit n (a XOR b) = drop_bit n a XOR drop_bit n (b :: u32)"
  by (rule bit_eqI) (simp add: bit_simps)

lemma reflected_round_xor:
  assumes "\<not> bit a 0"
  shows "reflected_round (a XOR z) = drop_bit 1 a XOR reflected_round z"
proof -
  have "bit (a XOR z) 0 = bit z 0"
    using assms by (simp add: bit_xor_iff)
  then show ?thesis
    by (simp add: reflected_round_def drop_bit_xor_word ac_simps)
qed

lemma reflected_rounds_split:
  assumes "\<forall>i<8. \<not> bit hi i" and "k \<le> 8"
  shows "(reflected_round ^^ k) (hi XOR lo) = drop_bit k hi XOR (reflected_round ^^ k) lo"
  using assms(2)
proof (induction k)
  case 0
  then show ?case by simp
next
  case (Suc k)
  then have k: "k < 8" by simp
  have "\<not> bit (drop_bit k hi) 0"
    using assms(1) k by (simp add: bit_drop_bit_eq)
  from reflected_round_xor [OF this, of "(reflected_round ^^ k) lo"] Suc show ?case
    by (simp add: drop_bit_drop_bit)
qed

lemma crc32_byte_rounds: "crc32_byte b x = (reflected_round ^^ 8) (x XOR ucast b)"
proof -
  define y where "y = x XOR ucast b"
  define hi where "hi = push_bit 8 (drop_bit 8 y)"
  define lo where "lo = y AND 0xff"
  have lo_mask: "lo = take_bit 8 y"
    by (simp add: lo_def take_bit_eq_mask mask_eq_exp_minus_1)
  have y: "y = hi XOR lo"
    unfolding hi_def lo_mask
    by (rule bit_eqI) (auto simp: bit_simps)
  have hi: "\<forall>i<8. \<not> bit hi i"
    by (simp add: hi_def bit_simps)
  have dhi: "drop_bit 8 hi = drop_bit 8 x"
    unfolding hi_def y_def
    by (rule bit_eqI) (auto simp: bit_simps dest: bit_imp_le_length)
  have "unat lo < 256"
    unfolding lo_mask using take_bit_nat_less_exp [of 8 "unat y"]
    by (simp add: unsigned_take_bit_eq)
  then have "table ! unat lo = (reflected_round ^^ 8) lo"
    by (simp add: table_nth table_step_round)
  with reflected_rounds_split [OF hi, of 8 lo] show ?thesis
    by (simp add: crc32_byte_def y_def [symmetric] lo_def [symmetric] y [symmetric] dhi)
qed

lemma crc32_is_iso_hdlc: "crc32 0 data = crc32_iso_hdlc data"
proof -
  have "fold crc32_byte data x = fold (\<lambda>b x. (reflected_round ^^ 8) (x XOR ucast b)) data x" for x
    by (induction data arbitrary: x) (simp_all add: crc32_byte_rounds)
  moreover have "(0xFFFFFFFF :: u32) = - 1" by simp
  ultimately show ?thesis
    by (simp only: crc32_def crc32_iso_hdlc_def bit.xor_one_right bit.compl_zero)
qed

text \<open>
  Claim C3. For every byte sequence and every splitting of it into chunks, starting the
  accumulator at 0 and folding the update over the chunks, in order, gives the same
  result as one update over the concatenation of the chunks; and that result is the
  CRC-32/ISO-HDLC checksum of the whole sequence.
\<close>

theorem crc32_chunking:
  "fold (\<lambda>chunk crc. crc32 crc chunk) chunks 0 = crc32 0 (concat chunks) \<and>
   crc32 0 (concat chunks) = crc32_iso_hdlc (concat chunks)"
  by (simp add: fold_crc32_concat crc32_is_iso_hdlc)

section \<open>Little-endian fields\<close>

lemma ebind_Inr [simp]: "ebind (Inr x) f = f x"
  by (simp add: ebind_def)

lemma ebind_Inl [simp]: "ebind (Inl e) f = Inl e"
  by (simp add: ebind_def)

lemma unat_byte_of_nat: "unat (word_of_nat v :: byte) = v mod 256"
  by (simp add: unat_of_nat)

lemma mod_65536: "(x::nat) mod 65536 = x mod 256 + 256 * (x div 256 mod 256)"
  using mod_mult2_eq [of x 256 256] by simp

lemma mod_4294967296:
  "(v::nat) mod 4294967296 =
     v mod 256 + 256 * (v div 256 mod 256) + 65536 * (v div 65536 mod 256)
       + 16777216 * (v div 16777216 mod 256)"
proof -
  have "v mod 4294967296 = v mod 65536 + 65536 * (v div 65536 mod 65536)"
    using mod_mult2_eq [of v 65536 65536] by simp
  moreover have "v div 65536 div 256 = v div 16777216"
    by (simp add: div_mult2_eq [symmetric])
  ultimately show ?thesis
    by (simp add: mod_65536 [of v] mod_65536 [of "v div 65536"])
qed

lemma le_value_le16: "le_value (le16 v) = v mod 65536"
  by (simp add: le_value_def le16_def unat_byte_of_nat mod_65536)

lemma le_value_le32: "le_value (le32 v) = v mod 4294967296"
  by (simp add: le_value_def le32_def unat_byte_of_nat mod_4294967296)

lemma length_le16 [simp]: "length (le16 v) = 2"
  by (simp add: le16_def)

lemma length_le32 [simp]: "length (le32 v) = 4"
  by (simp add: le32_def)

lemma byte_256: "(256::byte) = 0"
proof -
  have "(word_of_nat 256 :: byte) = 0"
    by (simp only: word_of_nat_eq_0_iff) simp
  then show ?thesis by simp
qed

lemma byte_of_nat_low: "(word_of_nat (unat (a::byte) + 256 * k) :: byte) = a"
  by (simp add: byte_256)

lemma unat_byte_less: "unat (a::byte) < 256"
  using unsigned_less [of a, where 'a = nat] by simp

lemma div_256_low: "(unat (a::byte) + 256 * k) div 256 = k"
  using unat_byte_less [of a] by simp

lemma length4: "length bs = 4 \<Longrightarrow> \<exists>a b c d. bs = [a, b, c, d]"
  by (cases bs; simp; rename_tac x xs; case_tac xs; simp; rename_tac y ys; case_tac ys; simp;
      rename_tac z zs; case_tac zs; simp)

text \<open>Four bytes are determined by their little-endian value.\<close>

lemma le32_le_value: "length bs = 4 \<Longrightarrow> le32 (le_value bs) = bs"
proof -
  assume "length bs = 4"
  then obtain a b c d where bs: "bs = [a, b, c, d]"
    using length4 by blast
  have v: "le_value bs = unat a + 256 * (unat b + 256 * (unat c + 256 * unat d))"
    by (simp add: bs le_value_def)
  have d1: "le_value bs div 256 = unat b + 256 * (unat c + 256 * unat d)"
    unfolding v by (rule div_256_low)
  have d2: "le_value bs div 65536 = unat c + 256 * unat d"
    using div_256_low [of b "unat c + 256 * unat d"] d1
    by (simp add: div_mult2_eq [of _ 256 256, simplified])
  have d3: "le_value bs div 16777216 = unat d"
    using div_256_low [of c "unat d"] d2
    by (simp add: div_mult2_eq [of _ 65536 256, simplified])
  have "le32 (le_value bs) =
      [word_of_nat (unat a + 256 * (unat b + 256 * (unat c + 256 * unat d))),
       word_of_nat (unat b + 256 * (unat c + 256 * unat d)),
       word_of_nat (unat c + 256 * unat d), word_of_nat (unat d)]"
    unfolding le32_def d1 d2 d3 unfolding v ..
  also have "\<dots> = [a, b, c, d]"
    by (simp only: byte_of_nat_low) simp
  finally show ?thesis by (simp add: bs)
qed

lemma getUint16_DataView_new:
  "getUint16 (DataView_new buf) k =
     (if k + 2 \<le> length buf then Inr (u16 buf k) else Inl RangeError)"
  by (simp add: getUint16_def getBytes_def DataView_new_def u16_def)

lemma getUint32_DataView_new:
  "getUint32 (DataView_new buf) k =
     (if k + 4 \<le> length buf then Inr (u32 buf k) else Inl RangeError)"
  by (simp add: getUint32_def getBytes_def DataView_new_def u32_def)

section \<open>The directory marker test\<close>

text \<open>
  Claim C10. A central directory entry whose raw name is empty is never a directory
  marker, whatever its uncompressed size: the index \<open>length - 1\<close> is \<open>-1\<close>, outside the
  array, and the lookup gives \<^verbatim>\<open>undefined\<close>, which is not the byte of the slash.
\<close>

theorem isDirectory_empty_name:
  "de_rawName entry = [] \<Longrightarrow> \<not> isDirectory entry"
  by (simp add: isDirectory_def Uint8Array_get_def)

theorem isDirectory_empty_name_witness:
  "de_rawName \<lparr>de_versionCreated = 20, de_versionNeeded = 20, de_flags = 0,
      de_compressionMethod = 0, de_dosTime = 0, de_dosDate = 0, de_crc32 = 0,
      de_compressedSize = 0, de_uncompressedSize = 0, de_diskNumberStart = 0,
      de_internalFileAttributes = 0, de_externalFileAttributes = 0, de_relativeOffset = 0,
      de_rawName = [], de_rawExtraField = [], de_rawComment = []\<rparr> = []
   \<and> \<not> isDirectory \<lparr>de_versionCreated = 20, de_versionNeeded = 20, de_flags = 0,
      de_compressionMethod = 0, de_dosTime = 0, de_dosDate = 0, de_crc32 = 0,
      de_compressedSize = 0, de_uncompressedSize = 0, de_diskNumberStart = 0,
      de_internalFileAttributes = 0, de_externalFileAttributes = 0, de_relativeOffset = 0,
      de_rawName = [], de_rawExtraField = [], de_rawComment = []\<rparr>"
  using isDirectory_empty_name
    [of "\<lparr>de_versionCreated = 20, de_versionNeeded = 20, de_flags = 0,
      de_compressionMethod = 0, de_dosTime = 0, de_dosDate = 0, de_crc32 = 0,
      de_compressedSize = 0, de_uncompressedSize = 0, de_diskNumberStart = 0,
      de_internalFileAttributes = 0, de_externalFileAttributes = 0, de_relativeOffset = 0,
      de_rawName = [], de_rawExtraField = [], de_rawComment = []\<rparr>"]
  by simp

text \<open>With a name that ends in a slash and no content, the entry is a directory marker.\<close>

lemma isDirectory_slash:
  "de_rawName entry = nm @ [0x2f] \<Longrightarrow> de_uncompressedSize entry = 0 \<Longrightarrow> isDirectory entry"
  by (simp add: isDirectory_def Uint8Array_get_def nth_append)

section \<open>Sources from a response\<close>

lemma fromResponse_isl:
  "isl (fromResponse h response) \<longleftrightarrow>
     rs_body response = None \<or>
     (\<exists>s. rs_contentLength response = Some s \<and> s \<noteq> [] \<and>
          (case parseInt h s of None \<Rightarrow> True | Some n \<Rightarrow> n < 0))"
  by (auto simp: fromResponse_def split: option.splits)

lemma fromResponse_expectedSize:
  "fromResponse h response = Inr src \<Longrightarrow> rs_contentLength response = Some s \<Longrightarrow> s \<noteq> [] \<Longrightarrow>
   zs_expectedSize src = parseInt h s \<and> (\<exists>n. parseInt h s = Some n \<and> 0 \<le> n)"
  by (auto simp: fromResponse_def ZipSource_new_def split: option.splits if_splits)

text \<open>
  Claim C7, as amended. \<^verbatim>\<open>fromResponse\<close> throws exactly when the body is missing, or
  the \<^verbatim>\<open>Content-Length\<close> header is present, not empty, and \<^verbatim>\<open>parseInt\<close> gives
  \<^verbatim>\<open>NaN\<close> or a negative number for it. It never looks at whether the response
  indicates failure. When it returns and the header is present and not empty, the
  parsed value is the source's expected size, and \<^verbatim>\<open>addResponse\<close> makes it the size
  guess of the entry it appends.
\<close>

theorem fromResponse_throws_iff:
  "(isl (fromResponse h response) \<longleftrightarrow>
      rs_body response = None \<or>
      (\<exists>s. rs_contentLength response = Some s \<and> s \<noteq> [] \<and>
           (case parseInt h s of None \<Rightarrow> True | Some n \<Rightarrow> n < 0)))
   \<and> (\<forall>s. rs_contentLength response = Some s \<and> s \<noteq> [] \<and> \<not> isl (fromResponse h response) \<longrightarrow>
          (\<exists>n src. parseInt h s = Some n \<and> 0 \<le> n \<and>
             fromResponse h response = Inr src \<and> zs_expectedSize src = Some n \<and>
             addResponse h nm response options w =
               Inr (w\<lparr>entries := entries w @ [ZipEntry_new h nm (zs_stream src) (Some n) options]\<rparr>) \<and>
             we_streamSizeGuess (ZipEntry_new h nm (zs_stream src) (Some n) options) = n))"
proof (intro conjI allI impI)
  show "isl (fromResponse h response) \<longleftrightarrow>
      rs_body response = None \<or>
      (\<exists>s. rs_contentLength response = Some s \<and> s \<noteq> [] \<and>
           (case parseInt h s of None \<Rightarrow> True | Some n \<Rightarrow> n < 0))"
    by (rule fromResponse_isl)
next
  fix s
  assume a: "rs_contentLength response = Some s \<and> s \<noteq> [] \<and> \<not> isl (fromResponse h response)"
  then obtain src where src: "fromResponse h response = Inr src"
    by (cases "fromResponse h response") auto
  from fromResponse_expectedSize [OF src] a obtain n
    where n: "parseInt h s = Some n" "0 \<le> n" "zs_expectedSize src = Some n"
    by auto
  have "addResponse h nm response options w =
      Inr (w\<lparr>entries := entries w @ [ZipEntry_new h nm (zs_stream src) (Some n) options]\<rparr>)"
    by (simp add: addResponse_def src add_def n)
  moreover have "we_streamSizeGuess (ZipEntry_new h nm (zs_stream src) (Some n) options) = n"
    by (simp add: ZipEntry_new_def Let_def)
  ultimately show "\<exists>n src. parseInt h s = Some n \<and> 0 \<le> n \<and>
             fromResponse h response = Inr src \<and> zs_expectedSize src = Some n \<and>
             addResponse h nm response options w =
               Inr (w\<lparr>entries := entries w @ [ZipEntry_new h nm (zs_stream src) (Some n) options]\<rparr>) \<and>
             we_streamSizeGuess (ZipEntry_new h nm (zs_stream src) (Some n) options) = n"
    using n src by blast
qed

theorem fromResponse_throws_iff_witness:
  "rs_contentLength \<lparr>rs_body = Some [[0x61]], rs_contentLength = Some [0x34, 0x32], rs_ok = True\<rparr>
     = Some [0x34, 0x32]
   \<and> [0x34, 0x32] \<noteq> ([] :: js_string)
   \<and> \<not> isl (fromResponse ascii_host
         \<lparr>rs_body = Some [[0x61]], rs_contentLength = Some [0x34, 0x32], rs_ok = True\<rparr>)
   \<and> parseInt ascii_host [0x34, 0x32] = Some 42
   \<and> addResponse ascii_host [0x61]
         \<lparr>rs_body = Some [[0x61]], rs_contentLength = Some [0x34, 0x32], rs_ok = True\<rparr>
         None ZipWriter_new
       = Inr (ZipWriter_new\<lparr>entries := [ZipEntry_new ascii_host [0x61] [[0x61]] (Some 42) None]\<rparr>)"
proof -
  let ?r = "\<lparr>rs_body = Some [[0x61]], rs_contentLength = Some [0x34, 0x32], rs_ok = True\<rparr>"
  have p: "parseInt ascii_host [0x34, 0x32] = Some 42"
    by (simp add: ascii_host_def parseInt_decimal_def)
  have f: "fromResponse ascii_host ?r = Inr (ZipSource_new [[0x61]] (Some 42))"
    by (simp add: fromResponse_def p)
  from fromResponse_throws_iff [of ascii_host ?r "[0x61]" None ZipWriter_new] f p
  show ?thesis
    by (simp add: ZipSource_new_def ZipWriter_new_def)
qed

text \<open>
  The claim as stated fails on a response that indicates failure and has a body and no
  \<^verbatim>\<open>Content-Length\<close> header: \<^verbatim>\<open>fromResponse\<close> returns a source for it.
\<close>

theorem fromResponse_failed_response_counterexample:
  "\<not> rs_ok \<lparr>rs_body = Some [[0x61]], rs_contentLength = None, rs_ok = False\<rparr>
   \<and> fromResponse ascii_host \<lparr>rs_body = Some [[0x61]], rs_contentLength = None, rs_ok = False\<rparr>
       = Inr (ZipSource_new [[0x61]] None)"
  by (simp add: fromResponse_def)

text \<open>An empty header value is not parsed either.\<close>

lemma fromResponse_empty_Content_Length:
  "fromResponse h \<lparr>rs_body = Some body, rs_contentLength = Some [], rs_ok = ok\<rparr>
     = Inr (ZipSource_new body None)"
  by (simp add: fromResponse_def)

section \<open>Locating the footer\<close>

lemma footer_window:
  "22 \<le> length data \<Longrightarrow>
   ZipData_slice data (int (ZipData_size data) - int ZipFooter_SIZE) (int ZipFooter_SIZE)
     = drop (length data - 22) data"
  by (auto simp: ZipData_slice_def ZipData_size_def ZipFooter_SIZE_def Blob_slice_def Let_def
        max_def min_def nat_diff_distrib)

lemma footer_window_short:
  "length data < 22 \<Longrightarrow>
   length (ZipData_slice data (int (ZipData_size data) - int ZipFooter_SIZE) (int ZipFooter_SIZE)) < 22"
  by (auto simp: ZipData_slice_def ZipData_size_def ZipFooter_SIZE_def Blob_slice_def Let_def
        max_def min_def)

lemma ZipFooter_new_short:
  "length buf < 22 \<Longrightarrow>
   ZipFooter_new (DataView_new buf) = Inl RangeError \<or>
   ZipFooter_new (DataView_new buf) = Inl InvalidFooterSignature"
  by (simp add: ZipFooter_new_def getUint16_DataView_new getUint32_DataView_new)

lemma ZipFooter_new_bad_signature:
  "4 \<le> length buf \<Longrightarrow> u32 buf 0 \<noteq> 0x06054b50 \<Longrightarrow>
   ZipFooter_new (DataView_new buf) = Inl InvalidFooterSignature"
  by (simp add: ZipFooter_new_def getUint32_DataView_new ZipFooter_SIGNATURE_def)

lemma ZipFooter_new_ok:
  "22 \<le> length buf \<Longrightarrow> u32 buf 0 = 0x06054b50 \<Longrightarrow>
   ZipFooter_new (DataView_new buf) =
     Inr \<lparr>ft_diskNumber = u16 buf 4, ft_diskStart = u16 buf 6,
          ft_diskEntries = u16 buf 8, ft_totalEntries = u16 buf 10,
          ft_directorySize = u32 buf 12, ft_directoryOffset = u32 buf 16,
          ft_commentLength = u16 buf 20\<rparr>"
  by (simp add: ZipFooter_new_def getUint16_DataView_new getUint32_DataView_new
        ZipFooter_SIGNATURE_def)

lemma signature_value:
  assumes "length bs = 4" and "bs \<noteq> [0x50, 0x4b, 0x05, 0x06]"
  shows "le_value bs \<noteq> 0x06054b50"
proof
  assume "le_value bs = 0x06054b50"
  then have "le32 (le_value bs) = le32 0x06054b50" by simp
  then have "bs = le32 0x06054b50" using assms(1) by (simp add: le32_le_value)
  then show False using assms(2) by (simp add: le32_def)
qed

lemma ZipReader_entries_throws:
  "ZipDirectory_read data = Inl e \<Longrightarrow> ZipReader_entries data = ([], Some e)"
  by (simp add: ZipReader_entries_def)

lemma ZipDirectory_read_throws:
  "ZipFooter_read data = Inl e \<Longrightarrow> ZipDirectory_read data = Inl e"
  by (simp add: ZipDirectory_read_def)

text \<open>
  Claim C6, as amended. A source of at least 22 bytes has its footer decoded from
  exactly its last 22 bytes, and if these do not begin with the bytes \<open>50 4b 05 06\<close>
  of the signature, opening the archive throws the bad-signature error: no directory
  is returned and the reader yields no entry. A shorter source is rejected as well,
  with the bad-signature error or with the host's range error.
\<close>

theorem ZipFooter_bad_signature:
  "(22 \<le> length data \<longrightarrow>
      ZipFooter_read data = ZipFooter_new (DataView_new (drop (length data - 22) data)))
   \<and> (22 \<le> length data \<and> take 4 (drop (length data - 22) data) \<noteq> [0x50, 0x4b, 0x05, 0x06] \<longrightarrow>
      ZipFooter_read data = Inl InvalidFooterSignature \<and>
      ZipDirectory_read data = Inl InvalidFooterSignature \<and>
      ZipReader_entries data = ([], Some InvalidFooterSignature))
   \<and> (length data < 22 \<longrightarrow>
      ZipDirectory_read data = Inl RangeError \<or> ZipDirectory_read data = Inl InvalidFooterSignature)"
proof -
  have window: "ZipFooter_read data = ZipFooter_new (DataView_new (drop (length data - 22) data))"
    if "22 \<le> length data"
    using that by (simp add: ZipFooter_read_def ZipData_view_def footer_window)
  have bad: "ZipFooter_read data = Inl InvalidFooterSignature \<and>
      ZipDirectory_read data = Inl InvalidFooterSignature \<and>
      ZipReader_entries data = ([], Some InvalidFooterSignature)"
    if a: "22 \<le> length data \<and> take 4 (drop (length data - 22) data) \<noteq> [0x50, 0x4b, 0x05, 0x06]"
  proof -
    let ?w = "drop (length data - 22) data"
    have len: "4 \<le> length ?w" using a by simp
    have "u32 ?w 0 \<noteq> 0x06054b50"
      unfolding u32_def using signature_value [of "take 4 ?w"] a len by simp
    then have "ZipFooter_new (DataView_new ?w) = Inl InvalidFooterSignature"
      using len by (simp add: ZipFooter_new_bad_signature)
    then have "ZipFooter_read data = Inl InvalidFooterSignature"
      using a by (simp add: window)
    then show ?thesis
      by (simp add: ZipDirectory_read_throws ZipReader_entries_throws)
  qed
  have short: "ZipDirectory_read data = Inl RangeError \<or>
      ZipDirectory_read data = Inl InvalidFooterSignature"
    if "length data < 22"
  proof -
    from footer_window_short [OF that] ZipFooter_new_short
    have "ZipFooter_read data = Inl RangeError \<or> ZipFooter_read data = Inl InvalidFooterSignature"
      by (simp add: ZipFooter_read_def ZipData_view_def)
    then show ?thesis
      by (auto simp: ZipDirectory_read_throws)
  qed
  from window bad short show ?thesis by blast
qed

theorem ZipFooter_bad_signature_witness:
  "22 \<le> length ([0, 0, 0, 0, 0, 0, 0, 0, 0, 0, 0, 0, 0, 0, 0, 0, 0, 0, 0, 0, 0, 0, 0, 0] :: byte list)
   \<and> take 4 (drop (length ([0, 0, 0, 0, 0, 0, 0, 0, 0, 0, 0, 0, 0, 0, 0, 0, 0, 0, 0, 0, 0, 0, 0, 0] :: byte list) - 22) ([0, 0, 0, 0, 0, 0, 0, 0, 0, 0, 0, 0, 0, 0, 0, 0, 0, 0, 0, 0, 0, 0, 0, 0] :: byte list)) \<noteq> [0x50, 0x4b, 0x05, 0x06]
   \<and> ZipDirectory_read [0, 0, 0, 0, 0, 0, 0, 0, 0, 0, 0, 0, 0, 0, 0, 0, 0, 0, 0, 0, 0, 0, 0, 0] = Inl InvalidFooterSignature
   \<and> ZipReader_entries [0, 0, 0, 0, 0, 0, 0, 0, 0, 0, 0, 0, 0, 0, 0, 0, 0, 0, 0, 0, 0, 0, 0, 0] = ([], Some InvalidFooterSignature)
   \<and> length [0x50 :: byte, 0x4b, 0x05, 0x06, 0, 0] < 22
   \<and> (ZipDirectory_read [0x50, 0x4b, 0x05, 0x06, 0, 0] = Inl RangeError \<or>
        ZipDirectory_read [0x50, 0x4b, 0x05, 0x06, 0, 0] = Inl InvalidFooterSignature)"
  using ZipFooter_bad_signature [of "[0, 0, 0, 0, 0, 0, 0, 0, 0, 0, 0, 0, 0, 0, 0, 0, 0, 0, 0, 0, 0, 0, 0, 0]"]
    ZipFooter_bad_signature [of "[0x50, 0x4b, 0x05, 0x06, 0, 0]"]
  by simp

text \<open>
  The claim as stated fails on the empty source: no signature stands in it, and
  opening it throws the range error of the first read, not the bad-signature error.
\<close>

theorem ZipFooter_empty_source_counterexample:
  "take 4 (ZipData_slice [] (int (ZipData_size []) - int ZipFooter_SIZE) (int ZipFooter_SIZE))
      \<noteq> [0x50, 0x4b, 0x05, 0x06]
   \<and> ZipDirectory_read [] = Inl RangeError
   \<and> ZipReader_entries [] = ([], Some RangeError)"
proof -
  have "ZipFooter_read [] = Inl RangeError"
    by (simp add: ZipFooter_read_def ZipData_view_def ZipData_slice_def Blob_slice_def
          ZipFooter_new_def getUint32_DataView_new)
  then show ?thesis
    by (simp add: ZipDirectory_read_throws ZipReader_entries_throws ZipData_slice_def
          Blob_slice_def)
qed

section \<open>The chain of an entry\<close>

text \<open>
  Whatever the callbacks do, a chunk that passes the first transform leaves the entry
  one step further on the same way: \<open>advances\<close> holds along \<open>evolves\<close>, and
  \<^verbatim>\<open>entryParts\<close>, when it returns, returns the three parts written out below.
\<close>

lemma advances_refl: "advances e e"
  by (simp add: advances_def)

lemma advances_trans: "advances a b \<Longrightarrow> advances b c \<Longrightarrow> advances a c"
  by (simp add: advances_def)

lemma advances_callback: "advances e (e\<lparr>we_progressCallback := cb\<rparr>)"
  by (simp add: advances_def)

lemma transform_advances:
  "transform options chunk (e\<lparr>we_source := rest\<rparr>) st = (None, e', st') \<Longrightarrow>
   we_source e = chunk # rest \<Longrightarrow> advances e e'"
  by (auto simp: transform_def Let_def advances_def crc32_append split: prod.splits option.splits)

lemma pump_advances: "pump options e st = (None, e', st') \<Longrightarrow> advances e e'"
  by (auto simp: pump_def advances_refl split: list.splits dest: transform_advances)

lemma drain_advances:
  "drain options src e st = (None, e', st') \<Longrightarrow> we_source e = src \<Longrightarrow>
   advances e e' \<and> we_source e' = []"
proof (induction src arbitrary: e st)
  case Nil
  then show ?case by (auto simp: advances_def)
next
  case (Cons chunk rest)
  from Cons.prems(1) obtain e1 st1 where
    t: "transform options chunk (e\<lparr>we_source := rest\<rparr>) st = (None, e1, st1)"
    and d: "drain options rest e1 st1 = (None, e', st')"
    by (auto split: prod.splits option.splits)
  from transform_advances [OF t] Cons.prems(2) have a1: "advances e e1" by simp
  have "we_source e1 = rest"
    using t by (auto simp: transform_def Let_def split: prod.splits option.splits)
  from Cons.IH [OF d this] a1 show ?case
    by (auto intro: advances_trans)
qed

lemma evolves_advances: "evolves e0 e \<Longrightarrow> advances e0 e"
  by (induction rule: evolves.induct)
     (auto intro: advances_refl advances_trans advances_callback pump_advances)

lemma fold_account:
  "fold account out e = e\<lparr>we_compressedSize := we_compressedSize e + length (concat out)\<rparr>"
  by (induction out arbitrary: e) (simp_all add: account_def)

lemma entryHeader_bytes:
  "entryHeader e = Inr (DataView_new (
     le32 0x04034b50 @ le16 0x0014 @ le16 (we_flags e) @ le16 (we_method e) @ le16 0 @ le16 0 @
     le32 (unat (we_crc32 e)) @ le32 (we_compressedSize e) @ le32 (we_uncompressedSize e) @
     le16 (length (we_rawName e)) @ le16 0))"
  by (simp add: entryHeader_def setUint16_def setUint32_def setBytes_def DataView_new_def
        ArrayBuffer_new_def le16_def le32_def Let_def)

lemma length_local_header [simp]: "length (local_header e) = 30"
  by (simp add: local_header_def)

lemma entryParts_returns:
  assumes "entryParts h options e st = (Inr parts, e', st')"
  shows "advances e (e'\<lparr>we_compressedSize := we_compressedSize e\<rparr>)"
    and "we_source e' = []"
    and "we_compressedSize e' = we_compressedSize e + length (entry_data h e')"
    and "parts = [local_header e', we_rawName e', entry_data h e']"
proof -
  from assms obtain e1 where
    d: "drain options (we_source e) e st = (None, e1, st')"
    and e': "e' = fold account (compressedStream h e1) e1"
    and p: "ebind (entryHeader e') (\<lambda>header. Inr [dv_buffer header, we_rawName e', concat (compressedStream h e1)]) = Inr parts"
    by (auto simp: entryParts_def Let_def split: prod.splits option.splits)
  from drain_advances [OF d] have a: "advances e e1" and s: "we_source e1 = []" by auto
  have e'': "e' = e1\<lparr>we_compressedSize := we_compressedSize e1 + length (concat (compressedStream h e1))\<rparr>"
    by (simp add: e' fold_account)
  have cs: "compressedStream h e' = compressedStream h e1"
    by (simp add: e'' compressedStream_def)
  show "advances e (e'\<lparr>we_compressedSize := we_compressedSize e\<rparr>)"
    using a by (simp add: e'' advances_def)
  show "we_source e' = []" by (simp add: e'' s)
  show "we_compressedSize e' = we_compressedSize e + length (entry_data h e')"
    using a by (simp add: entry_data_def cs) (simp add: e'' advances_def)
  show "parts = [local_header e', we_rawName e', entry_data h e']"
    using p by (simp add: entryHeader_bytes DataView_new_def local_header_def entry_data_def cs)
qed

section \<open>The parts that build assembles\<close>

lemma length_central_header [simp]: "length (central_header e off) = 46"
  by (simp add: central_header_def)

lemma length_footer_bytes [simp]: "length (footer_bytes n ds off) = 22"
  by (simp add: footer_bytes_def)

lemma directoryParts_bytes:
  "directoryParts e off = Inr [central_header e off, we_rawName e]"
  by (simp add: directoryParts_def setUint16_def setUint32_def setBytes_def DataView_new_def
        ArrayBuffer_new_def le16_def le32_def Let_def central_header_def)

lemma buildFooter_bytes:
  "buildFooter n ds off = Inr (DataView_new (footer_bytes n ds off))"
  by (simp add: buildFooter_def setUint16_def setUint32_def setBytes_def DataView_new_def
        ArrayBuffer_new_def le16_def le32_def Let_def footer_bytes_def)

lemma directoryLoop_result:
  "\<exists>parts'. directoryLoop es (parts, off, ds) =
      Inr (parts', off + sum_list (map entrySize es), ds + sum_list (map directorySize es))
    \<and> concat parts' = concat parts @ central_directory es off"
proof (induction es arbitrary: parts off ds)
  case Nil
  then show ?case by simp
next
  case (Cons e es)
  from Cons.IH [of "parts @ [central_header e off, we_rawName e]" "off + entrySize e"
      "ds + directorySize e"]
  show ?case
    by (auto simp: directoryParts_bytes add.assoc)
qed

lemma length_central_directory:
  "length (central_directory es off) = sum_list (map directorySize es)"
  by (induction es arbitrary: off) (simp_all add: directorySize_def)

lemma run_schedule_advances:
  "run_schedule options sched es st = (None, es', st') \<Longrightarrow> list_all2 advances es es'"
proof (induction sched arbitrary: es st)
  case Nil
  then show ?case by (simp add: list_all2_conv_all_nth advances_refl)
next
  case (Cons index sched)
  show ?case
  proof (cases "index < length es")
    case False
    with Cons show ?thesis by simp
  next
    case True
    with Cons.prems obtain e1 st1 where
      p: "pump options (es ! index) st = (None, e1, st1)"
      and r: "run_schedule options sched (es[index := e1]) st1 = (None, es', st')"
      by (auto split: prod.splits option.splits)
    have "list_all2 advances es (es[index := e1])"
      using pump_advances [OF p] True
      by (auto simp: list_all2_conv_all_nth nth_list_update advances_refl)
    moreover from Cons.IH [OF r] have "list_all2 advances (es[index := e1]) es'" .
    ultimately show ?thesis
      by (rule list_all2_trans [rotated -2]) (auto intro: advances_trans)
  qed
qed

lemma all_entryParts_returns:
  "all_entryParts h options es st = (Inr parts, es', st') \<Longrightarrow>
   list_all2 (completes h) es es' \<and> concat parts = concat (map (local_bytes h) es')"
proof (induction es arbitrary: st parts es' st')
  case Nil
  then show ?case by simp
next
  case (Cons e es)
  from Cons.prems obtain ps e1 st1 pr er where
    p: "entryParts h options e st = (Inr ps, e1, st1)"
    and r: "all_entryParts h options es st1 = (Inr pr, er, st')"
    and eq: "parts = ps @ pr" "es' = e1 # er"
    by (auto split: prod.splits sum.splits)
  from entryParts_returns [OF p] have "completes h e e1"
    and "ps = [local_header e1, we_rawName e1, entry_data h e1]"
    by (simp_all add: completes_def)
  with Cons.IH [OF r] eq show ?case
    by (simp add: local_bytes_def)
qed

lemma build_returns_bytes:
  assumes "build h options sched w = (Inr blob, w', st')"
  shows "blob = concat (map (local_bytes h) (entries w')) @ central_directory (entries w') 0 @
           footer_bytes (length (entries w')) (sum_list (map directorySize (entries w')))
             (sum_list (map entrySize (entries w')))"
    and "\<exists>es0 es1. list_all2 (\<lambda>e e0. e0 = e \<or> (\<exists>i. e0 = e\<lparr>we_progressCallback := Some i\<rparr>)) (entries w) es0 \<and>
           list_all2 advances es0 es1 \<and> list_all2 (completes h) es1 (entries w')"
proof -
  define es0 where "es0 = (if (case options of None \<Rightarrow> False | Some opts \<Rightarrow> progress opts) \<or>
                  (case options of None \<Rightarrow> False | Some opts \<Rightarrow> entryProgress opts)
                 then map (\<lambda>(index, entry). entry\<lparr>we_progressCallback := Some index\<rparr>)
                        (enumerate 0 (entries w))
                 else entries w)"
  from assms obtain st0 es1 st1 parts es2 where
    r: "run_schedule options sched es0 st0 = (None, es1, st1)"
    and a: "all_entryParts h options es1 st1 = (Inr parts, es2, st')"
    and w': "w' = w\<lparr>entries := es2\<rparr>"
    and b: "ebind (directoryLoop es2 (parts, 0, 0)) (\<lambda>(parts, offset, directorySize').
                   ebind (buildFooter (length es2) directorySize' offset) (\<lambda>footer.
                   Inr (concat (parts @ [dv_buffer footer])))) = Inr blob"
    unfolding build_def Let_def es0_def
    by (auto split: prod.splits option.splits sum.splits)
  from directoryLoop_result [of es2 parts 0 0] obtain parts' where
    d: "directoryLoop es2 (parts, 0, 0) =
          Inr (parts', sum_list (map entrySize es2), sum_list (map directorySize es2))"
    and c: "concat parts' = concat parts @ central_directory es2 0"
    by auto
  from all_entryParts_returns [OF a] have
    comp: "list_all2 (completes h) es1 es2" and
    loc: "concat parts = concat (map (local_bytes h) es2)" by auto
  show "blob = concat (map (local_bytes h) (entries w')) @ central_directory (entries w') 0 @
           footer_bytes (length (entries w')) (sum_list (map directorySize (entries w')))
             (sum_list (map entrySize (entries w')))"
    using b by (simp add: d buildFooter_bytes DataView_new_def c loc w')
  have "list_all2 (\<lambda>e e0. e0 = e \<or> (\<exists>i. e0 = e\<lparr>we_progressCallback := Some i\<rparr>)) (entries w) es0"
    by (auto simp: es0_def list_all2_conv_all_nth nth_enumerate_eq)
  with run_schedule_advances [OF r] comp
  show "\<exists>es0 es1. list_all2 (\<lambda>e e0. e0 = e \<or> (\<exists>i. e0 = e\<lparr>we_progressCallback := Some i\<rparr>)) (entries w) es0 \<and>
           list_all2 advances es0 es1 \<and> list_all2 (completes h) es1 (entries w')"
    by (auto simp: w')
qed

section \<open>Callbacks that do not throw\<close>

lemma progressCallback_safe:
  "table_length st = Some n \<Longrightarrow> i < n \<Longrightarrow>
   \<exists>st'. progressCallback options i bw tb st = (None, st') \<and> table_length st' = Some n"
  by (auto simp: progressCallback_def table_length_def Let_def split: option.splits)

lemma transform_safe:
  assumes "callback_safe (table_length st) e"
  shows "\<exists>e' st'. transform options chunk e st = (None, e', st') \<and>
           table_length st' = table_length st \<and>
           we_progressCallback e' = we_progressCallback e \<and> we_source e' = we_source e"
proof (cases "we_progressCallback e")
  case None
  then show ?thesis by (simp add: transform_def Let_def)
next
  case (Some i)
  with assms obtain n where n: "table_length st = Some n" "i < n"
    by (auto simp: callback_safe_def split: option.splits)
  from progressCallback_safe [OF n, of options "int (we_uncompressedSize e + length chunk)"
      "max (we_streamSizeGuess e) (int (we_uncompressedSize e + length chunk))"]
  obtain st' where "progressCallback options i (int (we_uncompressedSize e + length chunk))
      (max (we_streamSizeGuess e) (int (we_uncompressedSize e + length chunk))) st = (None, st')"
    and "table_length st' = Some n" by auto
  then show ?thesis
    using Some n by (simp add: transform_def Let_def)
qed

lemma pump_safe:
  assumes "callback_safe (table_length st) e"
  shows "\<exists>e' st'. pump options e st = (None, e', st') \<and>
           table_length st' = table_length st \<and>
           we_progressCallback e' = we_progressCallback e"
proof (cases "we_source e")
  case Nil
  then show ?thesis by (simp add: pump_def)
next
  case (Cons chunk rest)
  have "callback_safe (table_length st) (e\<lparr>we_source := rest\<rparr>)"
    using assms by (simp add: callback_safe_def)
  from transform_safe [OF this, of options chunk] Cons show ?thesis
    by (auto simp: pump_def)
qed

lemma drain_safe:
  "callback_safe (table_length st) e \<Longrightarrow>
   \<exists>e' st'. drain options src e st = (None, e', st') \<and> table_length st' = table_length st"
proof (induction src arbitrary: e st)
  case Nil
  then show ?case by simp
next
  case (Cons chunk rest)
  have "callback_safe (table_length st) (e\<lparr>we_source := rest\<rparr>)"
    using Cons.prems by (simp add: callback_safe_def)
  from transform_safe [OF this, of options chunk] obtain e1 st1 where
    t: "transform options chunk (e\<lparr>we_source := rest\<rparr>) st = (None, e1, st1)"
    and tlen: "table_length st1 = table_length st"
    and cb: "we_progressCallback e1 = we_progressCallback e"
    by auto
  have "callback_safe (table_length st1) e1"
    using Cons.prems by (simp add: callback_safe_def tlen cb)
  from Cons.IH [OF this] t tlen show ?case by auto
qed

lemma entryParts_safe:
  assumes "callback_safe (table_length st) e"
  shows "\<exists>parts e' st'. entryParts h options e st = (Inr parts, e', st') \<and>
           table_length st' = table_length st"
proof -
  from drain_safe [OF assms, of options "we_source e"] obtain e1 st1 where
    "drain options (we_source e) e st = (None, e1, st1)" "table_length st1 = table_length st"
    by auto
  then show ?thesis
    by (simp add: entryParts_def Let_def entryHeader_bytes)
qed

lemma run_schedule_safe:
  "\<forall>e\<in>set es. callback_safe (table_length st) e \<Longrightarrow>
   \<exists>es' st'. run_schedule options sched es st = (None, es', st') \<and>
     table_length st' = table_length st \<and>
     (\<forall>e\<in>set es'. callback_safe (table_length st') e)"
proof (induction sched arbitrary: es st)
  case Nil
  then show ?case by simp
next
  case (Cons index sched)
  show ?case
  proof (cases "index < length es")
    case False
    with Cons show ?thesis by simp
  next
    case True
    then have "callback_safe (table_length st) (es ! index)"
      using Cons.prems by simp
    from pump_safe [OF this, of options] obtain e1 st1 where
      p: "pump options (es ! index) st = (None, e1, st1)"
      and tlen: "table_length st1 = table_length st"
      and cb: "we_progressCallback e1 = we_progressCallback (es ! index)"
      by auto
    have "callback_safe (table_length st1) e1"
      using \<open>callback_safe (table_length st) (es ! index)\<close> by (simp add: callback_safe_def tlen cb)
    then have "\<forall>e\<in>set (es[index := e1]). callback_safe (table_length st1) e"
      using Cons.prems tlen by (auto dest!: set_update_subset_insert [THEN subsetD])
    from Cons.IH [OF this] p True tlen show ?thesis by auto
  qed
qed

lemma all_entryParts_safe:
  "\<forall>e\<in>set es. callback_safe (table_length st) e \<Longrightarrow>
   \<exists>parts es' st'. all_entryParts h options es st = (Inr parts, es', st')"
proof (induction es arbitrary: st)
  case Nil
  then show ?case by simp
next
  case (Cons e es)
  then have "callback_safe (table_length st) e" by simp
  from entryParts_safe [OF this, of h options] obtain ps e1 st1 where
    p: "entryParts h options e st = (Inr ps, e1, st1)" and tlen: "table_length st1 = table_length st"
    by auto
  have "\<forall>e\<in>set es. callback_safe (table_length st1) e"
    using Cons.prems tlen by simp
  from Cons.IH [OF this] p show ?case by auto
qed

text \<open>
  \<^verbatim>\<open>build\<close> returns a blob, whatever the schedule, when it is called without options,
  with \<^verbatim>\<open>progress\<close>, or with neither callback.
\<close>

lemma build_returns:
  assumes "\<forall>e\<in>set (entries w). we_progressCallback e = None"
    and "options = None \<or> (\<exists>opts. options = Some opts \<and> (progress opts \<or> \<not> entryProgress opts))"
  shows "\<exists>blob w' st'. build h options sched w = (Inr blob, w', st')"
proof -
  define wantProgress where "wantProgress = (case options of None \<Rightarrow> False | Some opts \<Rightarrow> progress opts)"
  define wantEntryProgress where "wantEntryProgress = (case options of None \<Rightarrow> False | Some opts \<Rightarrow> entryProgress opts)"
  define st0 where "st0 = \<lparr>cs_entryProgress = (if wantProgress
             then Some (map (\<lambda>entry. \<lparr>bytesWritten = 0, totalBytes = we_streamSizeGuess entry\<rparr>)
                         (entries w))
             else None), cs_calls = []\<rparr>"
  define es0 where "es0 = (if wantProgress \<or> wantEntryProgress
                 then map (\<lambda>(index, entry). entry\<lparr>we_progressCallback := Some index\<rparr>)
                        (enumerate 0 (entries w))
                 else entries w)"
  have safe: "\<forall>e\<in>set es0. callback_safe (table_length st0) e"
  proof (cases wantProgress)
    case True
    then have "table_length st0 = Some (length (entries w))"
      by (simp add: st0_def table_length_def)
    moreover have "\<forall>e\<in>set es0. \<exists>i < length (entries w). we_progressCallback e = Some i"
      using True by (auto simp: es0_def in_set_enumerate_eq)
    ultimately show ?thesis by (auto simp: callback_safe_def)
  next
    case False
    with assms(2) have "\<not> wantEntryProgress"
      by (auto simp: wantProgress_def wantEntryProgress_def)
    with False assms(1) show ?thesis
      by (simp add: es0_def callback_safe_def)
  qed
  from run_schedule_safe [OF safe, of options sched] obtain es1 st1 where
    r: "run_schedule options sched es0 st0 = (None, es1, st1)"
    and safe1: "\<forall>e\<in>set es1. callback_safe (table_length st1) e" by auto
  from all_entryParts_safe [OF safe1, of h options] obtain parts es2 st2 where
    a: "all_entryParts h options es1 st1 = (Inr parts, es2, st2)" by auto
  from directoryLoop_result [of es2 parts 0 0] obtain parts' where
    d: "directoryLoop es2 (parts, 0, 0) =
          Inr (parts', sum_list (map entrySize es2), sum_list (map directorySize es2))"
    by auto
  have "build h options sched w =
     (Inr (concat (parts' @ [footer_bytes (length es2) (sum_list (map directorySize es2)) (sum_list (map entrySize es2))])),
       w\<lparr>entries := es2\<rparr>, st2)"
    using r a unfolding build_def Let_def wantProgress_def [symmetric] wantEntryProgress_def [symmetric]
      st0_def [symmetric] es0_def [symmetric]
    by (simp add: d buildFooter_bytes DataView_new_def)
  then show ?thesis by blast
qed

section \<open>The size of an entry's parts\<close>

text \<open>The definitions that evaluate the writer on an example.\<close>

lemmas write_eval = addBlob_def add_def fromBlob_def ZipSource_new_def ZipWriter_new_def
  ZipEntry_new_def toUtf8_def Let_def pump_def transform_def progressCallback_def
  entryParts_def compressedStream_def account_def entryHeader_bytes directoryParts_bytes
  buildFooter_bytes DataView_new_def entrySize_def directorySize_def

lemma ZipEntry_new_fields [simp]:
  "we_rawName (ZipEntry_new h nm stream guess eopts) = toUtf8 h nm"
  "we_flags (ZipEntry_new h nm stream guess eopts) = 0x0800"
  "we_compressedSize (ZipEntry_new h nm stream guess eopts) = 0"
  "we_uncompressedSize (ZipEntry_new h nm stream guess eopts) = 0"
  "we_crc32 (ZipEntry_new h nm stream guess eopts) = 0"
  "we_source (ZipEntry_new h nm stream guess eopts) = stream"
  "we_enqueued (ZipEntry_new h nm stream guess eopts) = []"
  "we_progressCallback (ZipEntry_new h nm stream guess eopts) = None"
  by (simp_all add: ZipEntry_new_def Let_def)

lemma ZipEntry_new_stored [simp]:
  "we_method (ZipEntry_new h nm stream guess (Some \<lparr>compressed = Some False\<rparr>)) = 0"
  "we_deflate (ZipEntry_new h nm stream guess (Some \<lparr>compressed = Some False\<rparr>)) = False"
  by (simp_all add: ZipEntry_new_def)

lemma ZipEntry_new_method:
  "we_method (ZipEntry_new h nm stream guess eopts) = (if we_deflate (ZipEntry_new h nm stream guess eopts) then 8 else 0)"
  by (simp add: ZipEntry_new_def Let_def)

text \<open>
  Claim C9. For every write-side entry, in any state that an entry made by the
  constructor can reach before \<^verbatim>\<open>entryParts\<close> is called, the parts that
  \<^verbatim>\<open>entryParts\<close> returns once the chain is read to its end are the local header of 30
  bytes, the raw name and the compressed data, the data has \<open>compressedSize\<close> bytes, and
  the total length of the three parts is \<^verbatim>\<open>entrySize()\<close>, which is 30 + name length +
  \<open>compressedSize\<close>: the offsets computed from \<^verbatim>\<open>entrySize()\<close> match the bytes emitted.
\<close>

theorem entryParts_length_is_entrySize:
  assumes "evolves (ZipEntry_new h nm stream guess eopts) e"
    and "entryParts h options e st = (Inr parts, e', st')"
  shows "\<exists>header. entryHeader e' = Inr header \<and>
           parts = [dv_buffer header, we_rawName e', concat (compressedStream h e')] \<and>
           length (dv_buffer header) = 30 \<and>
           length (concat (compressedStream h e')) = we_compressedSize e' \<and>
           length (concat parts) = entrySize e' \<and>
           entrySize e' = 30 + length (we_rawName e') + we_compressedSize e'"
proof -
  from evolves_advances [OF assms(1)] have "we_compressedSize e = 0"
    by (simp add: advances_def)
  with entryParts_returns [OF assms(2)] show ?thesis
    by (simp add: entryHeader_bytes DataView_new_def entrySize_def entry_data_def local_header_def)
qed

text \<open>
  An entry \<^verbatim>\<open>a\<close> with the content \<^verbatim>\<open>xy\<close>: a header of 30 bytes, one byte of name and
  two bytes of data.
\<close>

theorem entryParts_length_is_entrySize_witness:
  "evolves (ZipEntry_new ascii_host [0x61] [[0x78, 0x79]] None None)
           (ZipEntry_new ascii_host [0x61] [[0x78, 0x79]] None None)
   \<and> entryParts ascii_host None (ZipEntry_new ascii_host [0x61] [[0x78, 0x79]] None None)
         \<lparr>cs_entryProgress = None, cs_calls = []\<rparr>
       = (Inr [[0x50, 0x4b, 0x03, 0x04, 0x14, 0, 0, 0x08, 0x08, 0, 0, 0, 0, 0,
                0x99, 0x28, 0xe6, 0x8f, 2, 0, 0, 0, 2, 0, 0, 0, 1, 0, 0, 0],
               [0x61], [0x79, 0x78]],
          (ZipEntry_new ascii_host [0x61] [[0x78, 0x79]] None None)
            \<lparr>we_uncompressedSize := 2, we_compressedSize := 2, we_crc32 := 0x8FE62899,
             we_source := [], we_enqueued := [[0x78, 0x79]]\<rparr>,
          \<lparr>cs_entryProgress = None, cs_calls = []\<rparr>)
   \<and> entrySize ((ZipEntry_new ascii_host [0x61] [[0x78, 0x79]] None None)
            \<lparr>we_uncompressedSize := 2, we_compressedSize := 2, we_crc32 := 0x8FE62899,
             we_source := [], we_enqueued := [[0x78, 0x79]]\<rparr>) = 33"
proof -
  let ?e = "ZipEntry_new ascii_host [0x61] [[0x78, 0x79]] None None"
  have ev: "evolves ?e ?e" by (rule evolves_new)
  have ep: "entryParts ascii_host None ?e \<lparr>cs_entryProgress = None, cs_calls = []\<rparr>
       = (Inr [[0x50, 0x4b, 0x03, 0x04, 0x14, 0, 0, 0x08, 0x08, 0, 0, 0, 0, 0,
                0x99, 0x28, 0xe6, 0x8f, 2, 0, 0, 0, 2, 0, 0, 0, 1, 0, 0, 0],
               [0x61], [0x79, 0x78]],
          ?e\<lparr>we_uncompressedSize := 2, we_compressedSize := 2, we_crc32 := 0x8FE62899,
             we_source := [], we_enqueued := [[0x78, 0x79]]\<rparr>,
          \<lparr>cs_entryProgress = None, cs_calls = []\<rparr>)"
    by (simp add: write_eval ascii_host_def crc32_Nil crc32_xy local_header_def le32_def le16_def)
  from entryParts_length_is_entrySize [OF ev ep] ev ep show ?thesis
    by auto
qed

section \<open>Stored entries\<close>

lemma u16_local_header_method: "u16 (local_header e) 8 = we_method e mod 65536"
  by (simp add: u16_def local_header_def le_value_le16)

lemma u16_central_header_method: "u16 (central_header e off) 10 = we_method e mod 65536"
  by (simp add: u16_def central_header_def le_value_le16)

text \<open>
  Claim C8. For every write-side entry created with the option \<^verbatim>\<open>compressed: false\<close>,
  once \<^verbatim>\<open>entryParts\<close> has read its chain to the end, \<open>compressedSize\<close> equals
  \<open>uncompressedSize\<close> and the method is 0 (stored): in the entry, in the local header
  that \<^verbatim>\<open>entryParts\<close> returns (offset 8) and in the directory header that
  \<^verbatim>\<open>directoryParts\<close> writes (offset 10).
\<close>

theorem stored_entry_sizes:
  assumes "evolves (ZipEntry_new h nm stream guess (Some \<lparr>compressed = Some False\<rparr>)) e"
    and "entryParts h options e st = (Inr parts, e', st')"
  shows "we_compressedSize e' = we_uncompressedSize e' \<and> we_method e' = 0 \<and>
         getUint16 (DataView_new (parts ! 0)) 8 = Inr 0 \<and>
         (\<forall>off. \<exists>header. directoryParts e' off = Inr [header, we_rawName e'] \<and>
                getUint16 (DataView_new header) 10 = Inr 0)"
proof -
  let ?e0 = "ZipEntry_new h nm stream guess (Some \<lparr>compressed = Some False\<rparr>)"
  from evolves_advances [OF assms(1)] have a0: "advances ?e0 e" .
  from entryParts_returns [OF assms(2)] have
    a1: "advances e (e'\<lparr>we_compressedSize := we_compressedSize e\<rparr>)"
    and src: "we_source e' = []"
    and cs: "we_compressedSize e' = we_compressedSize e + length (entry_data h e')"
    and parts: "parts = [local_header e', we_rawName e', entry_data h e']"
    by auto
  from advances_trans [OF a0 a1] src have
    m: "we_method e' = 0" and d: "\<not> we_deflate e'"
    and enq: "we_enqueued e' = stream"
    and us: "we_uncompressedSize e' = length (concat stream)"
    by (simp_all add: advances_def)
  from a0 have "we_compressedSize e = 0" by (simp add: advances_def)
  with cs d enq have c: "we_compressedSize e' = length (concat stream)"
    by (simp add: entry_data_def compressedStream_def)
  show ?thesis
    using m c us parts
    by (simp add: getUint16_DataView_new u16_local_header_method directoryParts_bytes
          u16_central_header_method)
qed

text \<open>The same entry stored: the data is the content, and both method fields are 0.\<close>

theorem stored_entry_sizes_witness:
  "evolves (ZipEntry_new ascii_host [0x61] [[0x78, 0x79]] None (Some \<lparr>compressed = Some False\<rparr>))
           (ZipEntry_new ascii_host [0x61] [[0x78, 0x79]] None (Some \<lparr>compressed = Some False\<rparr>))
   \<and> entryParts ascii_host None
         (ZipEntry_new ascii_host [0x61] [[0x78, 0x79]] None (Some \<lparr>compressed = Some False\<rparr>))
         \<lparr>cs_entryProgress = None, cs_calls = []\<rparr>
       = (Inr [[0x50, 0x4b, 0x03, 0x04, 0x14, 0, 0, 0x08, 0, 0, 0, 0, 0, 0,
                0x99, 0x28, 0xe6, 0x8f, 2, 0, 0, 0, 2, 0, 0, 0, 1, 0, 0, 0],
               [0x61], [0x78, 0x79]],
          (ZipEntry_new ascii_host [0x61] [[0x78, 0x79]] None (Some \<lparr>compressed = Some False\<rparr>))
            \<lparr>we_uncompressedSize := 2, we_compressedSize := 2, we_crc32 := 0x8FE62899,
             we_source := [], we_enqueued := [[0x78, 0x79]]\<rparr>,
          \<lparr>cs_entryProgress = None, cs_calls = []\<rparr>)
   \<and> we_method ((ZipEntry_new ascii_host [0x61] [[0x78, 0x79]] None (Some \<lparr>compressed = Some False\<rparr>))
            \<lparr>we_uncompressedSize := 2, we_compressedSize := 2, we_crc32 := 0x8FE62899,
             we_source := [], we_enqueued := [[0x78, 0x79]]\<rparr>) = 0"
proof -
  let ?e = "ZipEntry_new ascii_host [0x61] [[0x78, 0x79]] None (Some \<lparr>compressed = Some False\<rparr>)"
  have ev: "evolves ?e ?e" by (rule evolves_new)
  have ep: "entryParts ascii_host None ?e \<lparr>cs_entryProgress = None, cs_calls = []\<rparr>
       = (Inr [[0x50, 0x4b, 0x03, 0x04, 0x14, 0, 0, 0x08, 0, 0, 0, 0, 0, 0,
                0x99, 0x28, 0xe6, 0x8f, 2, 0, 0, 0, 2, 0, 0, 0, 1, 0, 0, 0],
               [0x61], [0x78, 0x79]],
          ?e\<lparr>we_uncompressedSize := 2, we_compressedSize := 2, we_crc32 := 0x8FE62899,
             we_source := [], we_enqueued := [[0x78, 0x79]]\<rparr>,
          \<lparr>cs_entryProgress = None, cs_calls = []\<rparr>)"
    by (simp add: write_eval ascii_host_def crc32_Nil crc32_xy local_header_def le32_def le16_def)
  from stored_entry_sizes [OF ev ep] ev ep show ?thesis
    by auto
qed

section \<open>Progress callbacks\<close>

text \<open>
  With the array of \<^verbatim>\<open>build\<close> in place, a chunk that passes the first transform of the
  entry at \<open>index\<close> calls \<^verbatim>\<open>entryProgress\<close>, if given, with the index, the bytes counted
  so far and the larger of the size hint and that count, stores the two numbers in the
  array, and calls \<^verbatim>\<open>progress\<close>, if given, with the sums over the array.
\<close>

lemma fold_plus_sum_list: "fold (\<lambda>p sum. sum + f p) xs (a::int) = a + sum_list (map f xs)"
  by (induction xs arbitrary: a) simp_all

lemma progressCallback_reports:
  assumes "cs_entryProgress st = Some arr" and "index < length arr"
  shows "progressCallback (Some opts) index bw tb st =
     (None,
      \<lparr>cs_entryProgress = Some (arr[index := \<lparr>bytesWritten = bw, totalBytes = tb\<rparr>]),
       cs_calls = cs_calls st
         @ (if entryProgress opts then [entryProgress_call index bw tb] else [])
         @ (if progress opts
            then [progress_call
                    (sum_list (map bytesWritten (arr[index := \<lparr>bytesWritten = bw, totalBytes = tb\<rparr>])))
                    (sum_list (map totalBytes (arr[index := \<lparr>bytesWritten = bw, totalBytes = tb\<rparr>])))]
            else [])\<rparr>)"
  using assms by (cases st) (simp add: progressCallback_def Let_def fold_plus_sum_list)

lemma transform_reports:
  assumes "we_progressCallback entry = Some index"
    and "cs_entryProgress st = Some arr" and "index < length arr"
    and "bw = int (we_uncompressedSize entry + length chunk)"
    and "tb = max (we_streamSizeGuess entry) bw"
    and "arr' = arr[index := \<lparr>bytesWritten = bw, totalBytes = tb\<rparr>]"
  shows "transform (Some opts) chunk entry st =
     (None,
      entry\<lparr>we_uncompressedSize := we_uncompressedSize entry + length chunk,
            we_crc32 := crc32 (we_crc32 entry) chunk,
            we_enqueued := we_enqueued entry @ [chunk]\<rparr>,
      \<lparr>cs_entryProgress = Some arr',
       cs_calls = cs_calls st
         @ (if entryProgress opts then [entryProgress_call index bw tb] else [])
         @ (if progress opts
            then [progress_call (sum_list (map bytesWritten arr')) (sum_list (map totalBytes arr'))]
            else [])\<rparr>)"
  using assms(1,4,5,6)
  by (simp add: transform_def Let_def progressCallback_reports [OF assms(2,3)])

text \<open>
  Two entries, \<^verbatim>\<open>a\<close> with one chunk and no size hint and \<^verbatim>\<open>b\<close> with two chunks and
  the size hint 5, both callbacks given: the calls made when \<^verbatim>\<open>b\<close> delivers its first
  chunk before \<^verbatim>\<open>a\<close> delivers its own.
\<close>

lemma build_progress_example:
  "cs_calls (snd (snd (build ascii_host (Some \<lparr>progress = True, entryProgress = True\<rparr>) [1, 0]
     (added ascii_host
       [([0x61], ZipSource_new [[0x78]] None, Some \<lparr>compressed = Some False\<rparr>),
        ([0x62], ZipSource_new [[0x79], [0x7a]] (Some 5), None)]))))
   = [entryProgress_call 1 1 5, progress_call 1 5,
      entryProgress_call 0 1 1, progress_call 2 6,
      entryProgress_call 1 2 5, progress_call 3 6]"
  by (simp add: build_def added_def write_eval ascii_host_def enumerate_eq_zip)

text \<open>
  With \<^verbatim>\<open>entryProgress\<close> alone the callback is installed but the array is not there:
  the first chunk that passes a first transform throws.
\<close>

lemma pump_throws:
  assumes "we_progressCallback e = Some i" and "cs_entryProgress st = None"
    and "we_source e = chunk # rest"
  shows "\<exists>e' st'. pump options e st = (Some TypeError, e', st')"
  using assms by (simp add: pump_def transform_def progressCallback_def Let_def)

lemma pump_idle: "we_source e = [] \<Longrightarrow> pump options e st = (None, e, st)"
  by (simp add: pump_def)

lemma run_schedule_without_table:
  assumes "\<forall>e\<in>set es. we_progressCallback e \<noteq> None" and "cs_entryProgress st = None"
  shows "run_schedule options sched es st = (None, es, st) \<or>
         (\<exists>es' st'. run_schedule options sched es st = (Some TypeError, es', st'))"
  using assms
proof (induction sched)
  case Nil
  then show ?case by simp
next
  case (Cons index sched)
  show ?case
  proof (cases "index < length es")
    case False
    with Cons show ?thesis by simp
  next
    case True
    show ?thesis
    proof (cases "we_source (es ! index)")
      case Nil
      with True Cons show ?thesis by (simp add: pump_idle)
    next
      case (Cons chunk rest)
      from True Cons.prems(1) obtain i where "we_progressCallback (es ! index) = Some i"
        by (metis nth_mem not_None_eq)
      from pump_throws [OF this Cons.prems(2) Cons, of options] True show ?thesis
        by auto
    qed
  qed
qed

lemma entryParts_throws:
  assumes "we_progressCallback e = Some i" and "cs_entryProgress st = None"
    and "we_source e \<noteq> []"
  shows "\<exists>e' st'. entryParts h options e st = (Inl TypeError, e', st')"
proof -
  from assms(3) obtain chunk rest where s: "we_source e = chunk # rest"
    by (cases "we_source e") auto
  show ?thesis
    using assms(1,2) by (simp add: entryParts_def s transform_def progressCallback_def Let_def)
qed

lemma entryParts_Nil:
  "we_source e = [] \<Longrightarrow> \<exists>parts e'. entryParts h options e st = (Inr parts, e', st)"
  by (simp add: entryParts_def Let_def entryHeader_bytes)

lemma all_entryParts_throws:
  assumes "\<forall>e\<in>set es. we_progressCallback e \<noteq> None" and "cs_entryProgress st = None"
    and "\<exists>e\<in>set es. we_source e \<noteq> []"
  shows "\<exists>es' st'. all_entryParts h options es st = (Inl TypeError, es', st')"
  using assms
proof (induction es)
  case Nil
  then show ?case by simp
next
  case (Cons e es)
  from Cons.prems(1) obtain i where i: "we_progressCallback e = Some i" by auto
  show ?case
  proof (cases "we_source e")
    case Nil
    from entryParts_Nil [OF this, of h options st] obtain parts e' where
      p: "entryParts h options e st = (Inr parts, e', st)" by auto
    from Cons.prems Nil have "\<exists>e\<in>set es. we_source e \<noteq> []" by auto
    with Cons.IH Cons.prems obtain es' st' where
      "all_entryParts h options es st = (Inl TypeError, es', st')" by auto
    with p show ?thesis by simp
  next
    case (Cons chunk rest)
    then have "we_source e \<noteq> []" by simp
    from entryParts_throws [OF i Cons.prems(2) this, of h options] show ?thesis
      by auto
  qed
qed

lemma build_entryProgress_only:
  assumes "\<not> progress opts" and "entryProgress opts"
    and "\<exists>e\<in>set (entries w). we_source e \<noteq> []"
  shows "fst (build h (Some opts) sched w) = Inl TypeError"
proof -
  define es0 where "es0 = map (\<lambda>(index, entry). entry\<lparr>we_progressCallback := Some index\<rparr>)
                        (enumerate 0 (entries w))"
  define st0 where "st0 = \<lparr>cs_entryProgress = None, cs_calls = []\<rparr>"
  have cb: "\<forall>e\<in>set es0. we_progressCallback e \<noteq> None"
    by (auto simp: es0_def)
  have tb: "cs_entryProgress st0 = None" by (simp add: st0_def)
  have src: "\<exists>e\<in>set es0. we_source e \<noteq> []"
  proof -
    from assms(3) obtain k where "k < length (entries w)" "we_source (entries w ! k) \<noteq> []"
      by (auto simp: in_set_conv_nth)
    then have "k < length es0" "we_source (es0 ! k) \<noteq> []"
      by (simp_all add: es0_def nth_enumerate_eq)
    then show ?thesis by (metis nth_mem)
  qed
  have b: "build h (Some opts) sched w =
      (case run_schedule (Some opts) sched es0 st0 of
           (Some e, es1, st1) \<Rightarrow> (Inl e, w\<lparr>entries := es1\<rparr>, st1)
         | (None, es1, st1) \<Rightarrow>
             (case all_entryParts h (Some opts) es1 st1 of
                (Inl e, es2, st2) \<Rightarrow> (Inl e, w\<lparr>entries := es2\<rparr>, st2)
              | (Inr parts, es2, st2) \<Rightarrow>
                  (ebind (directoryLoop es2 (parts, 0, 0)) (\<lambda>(parts, offset, directorySize').
                   ebind (buildFooter (length es2) directorySize' offset) (\<lambda>footer.
                   Inr (concat (parts @ [dv_buffer footer])))),
                   w\<lparr>entries := es2\<rparr>, st2)))"
    using assms(1,2) by (simp add: build_def es0_def st0_def)
  from run_schedule_without_table [OF cb tb, of "Some opts" sched]
  show ?thesis
  proof
    assume r: "run_schedule (Some opts) sched es0 st0 = (None, es0, st0)"
    from all_entryParts_throws [OF cb tb src, of h "Some opts"] r show ?thesis
      by (auto simp: b)
  next
    assume "\<exists>es' st'. run_schedule (Some opts) sched es0 st0 = (Some TypeError, es', st')"
    then show ?thesis by (auto simp: b)
  qed
qed

text \<open>
  Claim C4 says that \<^verbatim>\<open>build\<close> completes normally when only \<^verbatim>\<open>entryProgress\<close> is
  provided. It does not: for the writer with the one entry \<^verbatim>\<open>a\<close> whose blob is the one
  byte \<^verbatim>\<open>x\<close>, \<^verbatim>\<open>build\<close> with \<^verbatim>\<open>entryProgress\<close> and without \<^verbatim>\<open>progress\<close> calls
  \<^verbatim>\<open>entryProgress(0, 1, 1)\<close> and then throws \<^verbatim>\<open>TypeError\<close>, the entry left with its
  chunk counted and not passed on.
\<close>

theorem build_entryProgress_only_throws:
  "build ascii_host (Some \<lparr>progress = False, entryProgress = True\<rparr>) []
     (addBlob ascii_host [0x61] [0x78] None ZipWriter_new)
   = (Inl TypeError,
      \<lparr>entries = [(ZipEntry_new ascii_host [0x61] [[0x78]] (Some 1) None)
                   \<lparr>we_progressCallback := Some 0, we_source := [], we_uncompressedSize := 1\<rparr>]\<rparr>,
      \<lparr>cs_entryProgress = None, cs_calls = [entryProgress_call 0 1 1]\<rparr>)"
  by (simp add: build_def write_eval ascii_host_def enumerate_eq_zip)

section \<open>Parsing the central directory\<close>

lemma length_encode_record_header [simp]: "length (encode_record_header r) = 46"
  by (simp add: encode_record_header_def)

lemma u16_append_left: "k + 2 \<le> length xs \<Longrightarrow> u16 (xs @ ys) k = u16 xs k"
  by (simp add: u16_def)

lemma u32_append_left: "k + 4 \<le> length xs \<Longrightarrow> u32 (xs @ ys) k = u32 xs k"
  by (simp add: u32_def)

lemma u16_append_right: "u16 (xs @ ys) (length xs + k) = u16 ys k"
  by (simp add: u16_def)

lemma u32_append_right: "u32 (xs @ ys) (length xs + k) = u32 ys k"
  by (simp add: u32_def)

lemma u16_le16: "u16 (le16 v @ ys) 0 = v mod 65536"
  by (simp add: u16_def le_value_le16)

lemma u32_le32: "u32 (le32 v @ ys) 0 = v mod 4294967296"
  by (simp add: u32_def le_value_le32)

lemma record_header_fields:
  "u32 (encode_record_header r) 0 = 0x02014b50"
  "u16 (encode_record_header r) 4 = cd_versionMadeBy r mod 65536"
  "u16 (encode_record_header r) 6 = cd_versionNeeded r mod 65536"
  "u16 (encode_record_header r) 8 = cd_flags r mod 65536"
  "u16 (encode_record_header r) 10 = cd_method r mod 65536"
  "u16 (encode_record_header r) 12 = cd_modTime r mod 65536"
  "u16 (encode_record_header r) 14 = cd_modDate r mod 65536"
  "u32 (encode_record_header r) 16 = cd_crc32 r mod 4294967296"
  "u32 (encode_record_header r) 20 = cd_compressedSize r mod 4294967296"
  "u32 (encode_record_header r) 24 = cd_uncompressedSize r mod 4294967296"
  "u16 (encode_record_header r) 28 = length (cd_name r) mod 65536"
  "u16 (encode_record_header r) 30 = length (cd_extra r) mod 65536"
  "u16 (encode_record_header r) 32 = length (cd_comment r) mod 65536"
  "u16 (encode_record_header r) 34 = cd_diskNumberStart r mod 65536"
  "u16 (encode_record_header r) 36 = cd_internalAttributes r mod 65536"
  "u32 (encode_record_header r) 38 = cd_externalAttributes r mod 4294967296"
  "u32 (encode_record_header r) 42 = cd_localHeaderOffset r mod 4294967296"
  by (simp_all add: encode_record_header_def u16_def u32_def le_value_le16 le_value_le32)

lemma ZipDirectoryEntry_new_ok:
  assumes "off + 46 + u16 buf (off + 28) + u16 buf (off + 30) + u16 buf (off + 32) \<le> length buf"
    and "u32 buf off = 0x02014b50"
  shows "ZipDirectoryEntry_new (DataView_new buf) off =
    Inr \<lparr>de_versionCreated = u16 buf (off + 4), de_versionNeeded = u16 buf (off + 6),
          de_flags = u16 buf (off + 8), de_compressionMethod = u16 buf (off + 10),
          de_dosTime = u16 buf (off + 12), de_dosDate = u16 buf (off + 14),
          de_crc32 = u32 buf (off + 16),
          de_compressedSize = u32 buf (off + 20), de_uncompressedSize = u32 buf (off + 24),
          de_diskNumberStart = u16 buf (off + 34),
          de_internalFileAttributes = u16 buf (off + 36),
          de_externalFileAttributes = u32 buf (off + 38),
          de_relativeOffset = u32 buf (off + 42),
          de_rawName = take (u16 buf (off + 28)) (drop (off + 46) buf),
          de_rawExtraField = take (u16 buf (off + 30)) (drop (off + 46 + u16 buf (off + 28)) buf),
          de_rawComment = take (u16 buf (off + 32))
             (drop (off + 46 + u16 buf (off + 28) + u16 buf (off + 30)) buf)\<rparr>"
  using assms
  by (simp add: ZipDirectoryEntry_new_def getUint16_DataView_new getUint32_DataView_new
        ZipDirectoryEntry_SIGNATURE_def ZipDirectoryEntry_SIZE_def Uint8Array_new_def Let_def
        DataView_new_def [THEN arg_cong [where f = dv_buffer]]
        DataView_new_def [THEN arg_cong [where f = dv_byteOffset]] add.assoc)

lemma ZipDirectoryEntry_new_bad_signature:
  "off + 4 \<le> length buf \<Longrightarrow> u32 buf off \<noteq> 0x02014b50 \<Longrightarrow>
   ZipDirectoryEntry_new (DataView_new buf) off = Inl (InvalidDirectoryEntrySignature off)"
  by (simp add: ZipDirectoryEntry_new_def getUint32_DataView_new ZipDirectoryEntry_SIGNATURE_def)

lemma u16_record_at:
  "k + 2 \<le> 46 \<Longrightarrow>
   u16 (pre @ encode_record_header r @ rest) (length pre + k) = u16 (encode_record_header r) k"
  by (simp add: u16_append_right u16_append_left)

lemma u32_record_at:
  "k + 4 \<le> 46 \<Longrightarrow>
   u32 (pre @ encode_record_header r @ rest) (length pre + k) = u32 (encode_record_header r) k"
  by (simp add: u32_append_right u32_append_left)

lemma u32_record_at0:
  "u32 (pre @ encode_record_header r @ rest) (length pre) = u32 (encode_record_header r) 0"
  using u32_record_at [of 0 pre r rest] by simp

text \<open>Parsing at the start of an encoded record reads the declared lengths.\<close>

lemma parse_encoded_header:
  assumes "length (cd_name r) mod 65536 + length (cd_extra r) mod 65536
             + length (cd_comment r) mod 65536 \<le> length rest"
  shows "ZipDirectoryEntry_new (DataView_new (pre @ encode_record_header r @ rest)) (length pre) =
     Inr ((parsed_record r)
       \<lparr>de_rawName := take (length (cd_name r) mod 65536) rest,
        de_rawExtraField := take (length (cd_extra r) mod 65536)
           (drop (length (cd_name r) mod 65536) rest),
        de_rawComment := take (length (cd_comment r) mod 65536)
           (drop (length (cd_name r) mod 65536 + length (cd_extra r) mod 65536) rest)\<rparr>)"
proof -
  let ?buf = "pre @ encode_record_header r @ rest"
  have f: "u16 ?buf (length pre + 28) = length (cd_name r) mod 65536"
    "u16 ?buf (length pre + 30) = length (cd_extra r) mod 65536"
    "u16 ?buf (length pre + 32) = length (cd_comment r) mod 65536"
    by (simp_all add: u16_record_at record_header_fields)
  have d: "\<And>j. drop (length pre + 46 + j) ?buf = drop j rest"
    by simp
  have d0: "drop (length pre + 46) ?buf = rest"
    by simp
  have "ZipDirectoryEntry_new (DataView_new ?buf) (length pre) = Inr
         \<lparr>de_versionCreated = u16 ?buf (length pre + 4), de_versionNeeded = u16 ?buf (length pre + 6),
          de_flags = u16 ?buf (length pre + 8), de_compressionMethod = u16 ?buf (length pre + 10),
          de_dosTime = u16 ?buf (length pre + 12), de_dosDate = u16 ?buf (length pre + 14),
          de_crc32 = u32 ?buf (length pre + 16),
          de_compressedSize = u32 ?buf (length pre + 20), de_uncompressedSize = u32 ?buf (length pre + 24),
          de_diskNumberStart = u16 ?buf (length pre + 34),
          de_internalFileAttributes = u16 ?buf (length pre + 36),
          de_externalFileAttributes = u32 ?buf (length pre + 38),
          de_relativeOffset = u32 ?buf (length pre + 42),
          de_rawName = take (u16 ?buf (length pre + 28)) (drop (length pre + 46) ?buf),
          de_rawExtraField = take (u16 ?buf (length pre + 30)) (drop (length pre + 46 + u16 ?buf (length pre + 28)) ?buf),
          de_rawComment = take (u16 ?buf (length pre + 32))
             (drop (length pre + 46 + u16 ?buf (length pre + 28) + u16 ?buf (length pre + 30)) ?buf)\<rparr>"
  proof (rule ZipDirectoryEntry_new_ok)
    show "length pre + 46 + u16 ?buf (length pre + 28) + u16 ?buf (length pre + 30)
            + u16 ?buf (length pre + 32) \<le> length ?buf"
      using assms by (simp only: f) simp
    show "u32 ?buf (length pre) = 0x02014b50"
      by (simp add: u32_record_at0 record_header_fields)
  qed
  also have "\<dots> = Inr ((parsed_record r)
       \<lparr>de_rawName := take (length (cd_name r) mod 65536) rest,
        de_rawExtraField := take (length (cd_extra r) mod 65536)
           (drop (length (cd_name r) mod 65536) rest),
        de_rawComment := take (length (cd_comment r) mod 65536)
           (drop (length (cd_name r) mod 65536 + length (cd_extra r) mod 65536) rest)\<rparr>)"
    unfolding f add.assoc [of "length pre + 46"] d d0
    by (simp add: parsed_record_def u16_record_at u32_record_at record_header_fields)
  finally show ?thesis .
qed

lemma parse_encoded_record:
  assumes "well_formed_record r"
  shows "ZipDirectoryEntry_new (DataView_new (pre @ encode_record r @ post)) (length pre)
           = Inr (parsed_record r)"
proof -
  from assms have m: "length (cd_name r) mod 65536 = length (cd_name r)"
      "length (cd_extra r) mod 65536 = length (cd_extra r)"
      "length (cd_comment r) mod 65536 = length (cd_comment r)"
    by (simp_all add: well_formed_record_def)
  have "ZipDirectoryEntry_new (DataView_new (pre @ encode_record_header r @
          (cd_name r @ cd_extra r @ cd_comment r @ post))) (length pre) =
     Inr ((parsed_record r)
       \<lparr>de_rawName := take (length (cd_name r) mod 65536) (cd_name r @ cd_extra r @ cd_comment r @ post),
        de_rawExtraField := take (length (cd_extra r) mod 65536)
           (drop (length (cd_name r) mod 65536) (cd_name r @ cd_extra r @ cd_comment r @ post)),
        de_rawComment := take (length (cd_comment r) mod 65536)
           (drop (length (cd_name r) mod 65536 + length (cd_extra r) mod 65536)
              (cd_name r @ cd_extra r @ cd_comment r @ post))\<rparr>)"
    by (rule parse_encoded_header) (simp add: m)
  then show ?thesis
    by (simp add: m encode_record_def parsed_record_def)
qed

lemma directoryEntrySize_parsed:
  "directoryEntrySize (parsed_record r) = length (encode_record r)"
  by (simp add: directoryEntrySize_def parsed_record_def encode_record_def ZipDirectoryEntry_SIZE_def)

declare ZipDirectory_entries_from.simps [simp del]

lemma entries_from_encoded:
  "\<forall>r\<in>set rs. well_formed_record r \<Longrightarrow>
   ZipDirectory_entries_from (DataView_new (pre @ concat (map encode_record rs))) (length pre)
     = (map parsed_record rs, None)"
proof (induction rs arbitrary: pre)
  case Nil
  show ?case
    by (subst ZipDirectory_entries_from.simps) (simp add: DataView_new_def)
next
  case (Cons r rs)
  let ?buf = "pre @ encode_record r @ concat (map encode_record rs)"
  have p: "ZipDirectoryEntry_new (DataView_new ?buf) (length pre) = Inr (parsed_record r)"
    using parse_encoded_record [of r pre "concat (map encode_record rs)"] Cons.prems by simp
  have lt: "length pre < dv_byteLength (DataView_new ?buf)"
    by (simp add: DataView_new_def encode_record_def)
  have ih: "ZipDirectory_entries_from (DataView_new ?buf) (length pre + length (encode_record r))
      = (map parsed_record rs, None)"
    using Cons.IH [of "pre @ encode_record r"] Cons.prems by simp
  show ?case
    by (subst ZipDirectory_entries_from.simps) (simp add: p lt ih directoryEntrySize_parsed)
qed

text \<open>
  Claim C5. A well-formed central directory blob is a concatenation of records in the
  wire format of the specification whose name, extra field and comment are each shorter
  than 65536 bytes. Iterating over it yields the entry of every record, in order, and
  ends without an exception, every read of the model past the end of the blob being one;
  each entry's \<^verbatim>\<open>directoryEntrySize()\<close> is 46 + name length + extra-field length +
  comment length, and these sizes add up to the length of the blob, which the cursor
  therefore reaches exactly.
\<close>

theorem directory_iteration:
  assumes "\<forall>r\<in>set rs. well_formed_record r"
  shows "ZipDirectory_entries \<lparr>zd_footer = footer, zd_data = DataView_new (concat (map encode_record rs))\<rparr>
           = (map parsed_record rs, None)
         \<and> map de_rawName (map parsed_record rs) = map cd_name rs
         \<and> map de_rawExtraField (map parsed_record rs) = map cd_extra rs
         \<and> map de_rawComment (map parsed_record rs) = map cd_comment rs
         \<and> (\<forall>r\<in>set rs. directoryEntrySize (parsed_record r)
                = 46 + length (cd_name r) + length (cd_extra r) + length (cd_comment r))
         \<and> sum_list (map directoryEntrySize (map parsed_record rs))
             = length (concat (map encode_record rs))"
proof -
  have "ZipDirectory_entries_from (DataView_new ([] @ concat (map encode_record rs))) (length ([] :: byte list))
          = (map parsed_record rs, None)"
    using assms by (rule entries_from_encoded)
  then have "ZipDirectory_entries \<lparr>zd_footer = footer, zd_data = DataView_new (concat (map encode_record rs))\<rparr>
           = (map parsed_record rs, None)"
    by (simp add: ZipDirectory_entries_def)
  moreover have "sum_list (map directoryEntrySize (map parsed_record rs))
             = length (concat (map encode_record rs))"
    by (simp add: length_concat comp_def directoryEntrySize_parsed)
  ultimately show ?thesis
    by (simp add: parsed_record_def directoryEntrySize_def ZipDirectoryEntry_SIZE_def comp_def)
qed

text \<open>Two records, of 57 and of 55 bytes.\<close>

theorem directory_iteration_witness:
  "well_formed_record example_record
   \<and> well_formed_record (example_record\<lparr>cd_localHeaderOffset := 104, cd_comment := []\<rparr>)
   \<and> concat (map encode_record
         [example_record, example_record\<lparr>cd_localHeaderOffset := 104, cd_comment := []\<rparr>])
       = [0x50, 0x4b, 1, 2, 0x1e, 3, 0x14, 0, 0, 0, 8, 0, 0x1c, 0x7d, 0x4b, 0x35,
          0xa6, 0xe1, 0x90, 0x7d, 0x45, 0, 0, 0, 0x4a, 0, 0, 0, 5, 0, 4, 0, 2, 0, 0, 0,
          1, 0, 0, 0, 0xa4, 0x81, 0, 0, 0, 0, 0x66, 0x69, 0x6c, 0x65, 0x31,
          0x55, 0x78, 0, 0, 0x6f, 0x6b,
          0x50, 0x4b, 1, 2, 0x1e, 3, 0x14, 0, 0, 0, 8, 0, 0x1c, 0x7d, 0x4b, 0x35,
          0xa6, 0xe1, 0x90, 0x7d, 0x45, 0, 0, 0, 0x4a, 0, 0, 0, 5, 0, 4, 0, 0, 0, 0, 0,
          1, 0, 0, 0, 0xa4, 0x81, 0x68, 0, 0, 0, 0x66, 0x69, 0x6c, 0x65, 0x31,
          0x55, 0x78, 0, 0]
   \<and> ZipDirectory_entries
         \<lparr>zd_footer = \<lparr>ft_diskNumber = 0, ft_diskStart = 0, ft_diskEntries = 2,
              ft_totalEntries = 2, ft_directorySize = 112, ft_directoryOffset = 208,
              ft_commentLength = 0\<rparr>,
          zd_data = DataView_new (concat (map encode_record
            [example_record, example_record\<lparr>cd_localHeaderOffset := 104, cd_comment := []\<rparr>]))\<rparr>
       = ([parsed_record example_record,
           parsed_record (example_record\<lparr>cd_localHeaderOffset := 104, cd_comment := []\<rparr>)],
          None)
   \<and> directoryEntrySize (parsed_record example_record) = 57
   \<and> directoryEntrySize
         (parsed_record (example_record\<lparr>cd_localHeaderOffset := 104, cd_comment := []\<rparr>)) = 55"
proof -
  let ?r2 = "example_record\<lparr>cd_localHeaderOffset := 104, cd_comment := []\<rparr>"
  have wf: "well_formed_record example_record" "well_formed_record ?r2"
    by (simp_all add: well_formed_record_def example_record_def)
  then have all: "\<forall>r\<in>set [example_record, ?r2]. well_formed_record r"
    by simp
  have bytes: "concat (map encode_record [example_record, ?r2])
       = [0x50, 0x4b, 1, 2, 0x1e, 3, 0x14, 0, 0, 0, 8, 0, 0x1c, 0x7d, 0x4b, 0x35,
          0xa6, 0xe1, 0x90, 0x7d, 0x45, 0, 0, 0, 0x4a, 0, 0, 0, 5, 0, 4, 0, 2, 0, 0, 0,
          1, 0, 0, 0, 0xa4, 0x81, 0, 0, 0, 0, 0x66, 0x69, 0x6c, 0x65, 0x31,
          0x55, 0x78, 0, 0, 0x6f, 0x6b,
          0x50, 0x4b, 1, 2, 0x1e, 3, 0x14, 0, 0, 0, 8, 0, 0x1c, 0x7d, 0x4b, 0x35,
          0xa6, 0xe1, 0x90, 0x7d, 0x45, 0, 0, 0, 0x4a, 0, 0, 0, 5, 0, 4, 0, 0, 0, 0, 0,
          1, 0, 0, 0, 0xa4, 0x81, 0x68, 0, 0, 0, 0x66, 0x69, 0x6c, 0x65, 0x31,
          0x55, 0x78, 0, 0]"
    by (simp add: encode_record_def encode_record_header_def example_record_def le16_def le32_def)
  from directory_iteration [OF all] wf bytes show ?thesis
    by (simp add: example_record_def)
qed

section \<open>The layout of a built archive\<close>

text \<open>What an entry has become once build has returned, in terms of what was added.\<close>

lemma entries_fold_add:
  "entries (fold (\<lambda>(nm, data, options). add h nm data options) items w) =
     entries w @ map (\<lambda>(nm, data, options).
        ZipEntry_new h nm (zs_stream data) (zs_expectedSize data) options) items"
  by (induction items arbitrary: w) (auto simp: add_def)

lemma entries_added:
  "entries (added h items) =
     map (\<lambda>(nm, data, options). ZipEntry_new h nm (zs_stream data) (zs_expectedSize data) options) items"
  by (simp add: added_def entries_fold_add ZipWriter_new_def)

lemma ZipEntry_new_deflate [simp]:
  "we_deflate (ZipEntry_new h nm stream guess eopts) = wants_deflate eopts"
  "we_method (ZipEntry_new h nm stream guess eopts) = (if wants_deflate eopts then 8 else 0)"
  by (simp_all add: ZipEntry_new_def Let_def wants_deflate_def)

lemma finished_chain:
  assumes "e0 = ZipEntry_new h nm (zs_stream data) (zs_expectedSize data) options \<or>
           (\<exists>i. e0 = (ZipEntry_new h nm (zs_stream data) (zs_expectedSize data) options)\<lparr>we_progressCallback := Some i\<rparr>)"
    and "advances e0 e1" and "completes h e1 e2"
  shows "finished h (nm, data, options) e2"
proof -
  let ?n = "ZipEntry_new h nm (zs_stream data) (zs_expectedSize data) options"
  have "advances ?n e0" using assms(1) by (auto simp: advances_def)
  from advances_trans [OF this assms(2)] have a: "advances ?n e1" .
  from assms(3) have c: "advances e1 (e2\<lparr>we_compressedSize := we_compressedSize e1\<rparr>)"
    and s: "we_source e2 = []"
    and z: "we_compressedSize e2 = we_compressedSize e1 + length (entry_data h e2)"
    by (simp_all add: completes_def)
  from advances_trans [OF a c] s z a show ?thesis
    by (simp add: finished_def advances_def crc32_Nil)
qed

lemma build_finished:
  assumes "build h options sched (added h items) = (Inr blob, w', st')"
  shows "list_all2 (finished h) items (entries w')"
proof -
  from build_returns_bytes(2) [OF assms] obtain es0 es1 where
    a: "list_all2 (\<lambda>e e0. e0 = e \<or> (\<exists>i. e0 = e\<lparr>we_progressCallback := Some i\<rparr>)) (entries (added h items)) es0"
    and b: "list_all2 advances es0 es1" and c: "list_all2 (completes h) es1 (entries w')"
    by blast
  have len: "length es0 = length items" "length es1 = length items" "length (entries w') = length items"
    using a b c by (auto simp: list_all2_lengthD entries_added dest!: list_all2_lengthD)
  show ?thesis
  proof (rule list_all2_all_nthI)
    show "length items = length (entries w')" by (simp add: len)
  next
    fix k assume k: "k < length items"
    obtain nm data eopts where it: "items ! k = (nm, data, eopts)"
      by (cases "items ! k") auto
    have n: "entries (added h items) ! k = ZipEntry_new h nm (zs_stream data) (zs_expectedSize data) eopts"
      using k it by (simp add: entries_added)
    have "k < length (entries (added h items))"
      using k by (simp add: entries_added)
    from list_all2_nthD [OF a this]
    have "es0 ! k = ZipEntry_new h nm (zs_stream data) (zs_expectedSize data) eopts \<or>
           (\<exists>i. es0 ! k = (ZipEntry_new h nm (zs_stream data) (zs_expectedSize data) eopts)\<lparr>we_progressCallback := Some i\<rparr>)"
      unfolding n .
    moreover have "advances (es0 ! k) (es1 ! k)"
      using b k len by (simp add: list_all2_conv_all_nth)
    moreover have "completes h (es1 ! k) (entries w' ! k)"
      using c k len by (simp add: list_all2_conv_all_nth)
    ultimately show "finished h (items ! k) (entries w' ! k)"
      unfolding it by (rule finished_chain)
  qed
qed

lemma length_local_bytes:
  "we_compressedSize e = length (entry_data h e) \<Longrightarrow> length (local_bytes h e) = entrySize e"
  by (simp add: local_bytes_def entrySize_def)

lemma drop_concat_map:
  "k \<le> length xs \<Longrightarrow>
   drop (sum_list (map (\<lambda>x. length (f x)) (take k xs))) (concat (map f xs) @ rest)
     = concat (map f (drop k xs)) @ rest"
proof (induction xs arbitrary: k)
  case Nil
  then show ?case by simp
next
  case (Cons x xs)
  then show ?case by (cases k) simp_all
qed

lemma drop_central_directory:
  "k \<le> length es \<Longrightarrow>
   drop (sum_list (map directorySize (take k es))) (central_directory es off @ rest)
     = central_directory (drop k es) (off + sum_list (map entrySize (take k es))) @ rest"
proof (induction es arbitrary: k off)
  case Nil
  then show ?case by simp
next
  case (Cons e es)
  show ?case
  proof (cases k)
    case 0
    then show ?thesis by simp
  next
    case (Suc j)
    with Cons.prems have j: "j \<le> length es" by simp
    from Cons.IH [OF j, of "off + entrySize e"] Suc show ?thesis
      by (simp add: directorySize_def add.assoc)
  qed
qed

lemma getUint32_at:
  "drop pos blob = le32 v @ rest \<Longrightarrow> getUint32 (DataView_new blob) pos = Inr (v mod 4294967296)"
proof -
  assume a: "drop pos blob = le32 v @ rest"
  then have "length (drop pos blob) \<ge> 4" by simp
  then have "pos + 4 \<le> length blob" by simp
  then show ?thesis
    by (simp add: getUint32_DataView_new u32_def a le_value_le32)
qed

lemma drop_42_central_header: "drop 42 (central_header e off) = le32 off"
  by (simp add: central_header_def)

lemma central_header_signature: "central_header e off = le32 0x02014b50 @ drop 4 (central_header e off)"
  by (simp add: central_header_def)

lemma local_header_signature: "local_header e = le32 0x04034b50 @ drop 4 (local_header e)"
  by (simp add: local_header_def)

lemma footer_bytes_signature: "footer_bytes n ds off = le32 0x06054b50 @ drop 4 (footer_bytes n ds off)"
  by (simp add: footer_bytes_def)

lemma drop_16_footer_bytes: "drop 16 (footer_bytes n ds off) = le32 off @ le16 0"
  by (simp add: footer_bytes_def)

lemma drop_12_footer_bytes: "drop 12 (footer_bytes n ds off) = le32 ds @ le32 off @ le16 0"
  by (simp add: footer_bytes_def)

lemma sum_entrySize_lengths:
  "\<forall>e\<in>set es. we_compressedSize e = length (entry_data h e) \<Longrightarrow>
   sum_list (map (\<lambda>e. length (local_bytes h e)) es) = sum_list (map entrySize es)"
  by (induction es) (simp_all add: length_local_bytes)

lemma finished_compressedSize:
  "finished h item e \<Longrightarrow> we_compressedSize e = length (entry_data h e)"
  by (cases item) (simp add: finished_def)

lemma finished_sized:
  "list_all2 (finished h) items es \<Longrightarrow> \<forall>e\<in>set es. we_compressedSize e = length (entry_data h e)"
  by (metis finished_compressedSize in_set_conv_nth list_all2_conv_all_nth)

text \<open>The three regions of the archive, and where entry k lies in the first two.\<close>

lemma build_layout:
  assumes "build h options sched (added h items) = (Inr blob, w', st')"
  defines "es \<equiv> entries w'"
  defines "offset \<equiv> \<lambda>j. sum_list (map entrySize (take j es))"
  defines "position \<equiv> \<lambda>j. offset (length es) + sum_list (map directorySize (take j es))"
  shows "length es = length items"
    and "list_all2 (finished h) items es"
    and "length blob = position (length es) + 22"
    and "drop (position (length es)) blob
           = footer_bytes (length es) (sum_list (map directorySize es)) (offset (length es))"
    and "take (offset (length es)) blob = concat (map (local_bytes h) es)"
    and "take (sum_list (map directorySize es)) (drop (offset (length es)) blob) = central_directory es 0"
    and "k < length es \<Longrightarrow> \<exists>rest. drop (offset k) blob = local_bytes h (es ! k) @ rest"
    and "k < length es \<Longrightarrow> \<exists>rest. drop (position k) blob
           = central_header (es ! k) (offset k) @ we_rawName (es ! k) @ rest"
proof -
  let ?L = "concat (map (local_bytes h) es)"
  let ?D = "central_directory es 0"
  let ?F = "footer_bytes (length es) (sum_list (map directorySize es)) (sum_list (map entrySize es))"
  have blob: "blob = ?L @ ?D @ ?F"
    using build_returns_bytes(1) [OF assms(1)] by (simp add: es_def)
  show fin: "list_all2 (finished h) items es"
    using build_finished [OF assms(1)] by (simp add: es_def)
  then show "length es = length items"
    by (simp add: list_all2_lengthD)
  have sized: "\<forall>e\<in>set es. we_compressedSize e = length (entry_data h e)"
    using fin by (rule finished_sized)
  have take_sized: "\<And>j. sum_list (map (\<lambda>e. length (local_bytes h e)) (take j es)) = offset j"
    unfolding offset_def using sized
    by (intro sum_entrySize_lengths) (auto dest: in_set_takeD)
  have lenL: "length ?L = offset (length es)"
    using take_sized [of "length es"] by (simp add: length_concat comp_def)
  have lenD: "length ?D = sum_list (map directorySize es)"
    by (rule length_central_directory)
  have off_all: "offset (length es) = sum_list (map entrySize es)"
    by (simp add: offset_def)
  show "length blob = position (length es) + 22"
    by (simp add: blob lenL lenD position_def)
  show "drop (position (length es)) blob
           = footer_bytes (length es) (sum_list (map directorySize es)) (offset (length es))"
    by (simp add: blob lenL lenD position_def off_all)
  show "take (offset (length es)) blob = ?L"
    by (simp add: blob lenL)
  show "take (sum_list (map directorySize es)) (drop (offset (length es)) blob) = ?D"
    by (simp add: blob lenL lenD)
  {
    assume k: "k < length es"
    have "drop (offset k) blob = concat (map (local_bytes h) (drop k es)) @ ?D @ ?F"
      using drop_concat_map [of k es "local_bytes h" "?D @ ?F"] k
      by (simp add: blob take_sized)
    also have "drop k es = es ! k # drop (Suc k) es"
      using k by (simp add: Cons_nth_drop_Suc)
    finally show "\<exists>rest. drop (offset k) blob = local_bytes h (es ! k) @ rest"
      by simp
    have "drop (position k) blob = drop (sum_list (map directorySize (take k es))) (?D @ ?F)"
      by (simp add: blob position_def lenL [symmetric])
    also have "\<dots> = central_directory (drop k es) (offset k) @ ?F"
      using drop_central_directory [of k es 0 ?F] k by (simp add: offset_def)
    also have "drop k es = es ! k # drop (Suc k) es"
      using k by (simp add: Cons_nth_drop_Suc)
    finally show "\<exists>rest. drop (position k) blob
           = central_header (es ! k) (offset k) @ we_rawName (es ! k) @ rest"
      by simp
  }
qed

lemma added_no_callbacks: "\<forall>e\<in>set (entries (added h items)). we_progressCallback e = None"
  by (auto simp: entries_added)

text \<open>
  Claim C1, with the recorded offsets reduced modulo \<open>2^32\<close>. Let the writer be made
  by one call of \<^verbatim>\<open>add\<close> for every item, in order, and let \<^verbatim>\<open>build\<close> return a blob.
  Then the writer has one entry for every item, and with \<open>offset k\<close> the sum of
  \<^verbatim>\<open>entrySize()\<close> over the first \<open>k\<close> entries: the parts of entry \<open>k\<close> (header, name,
  data) lie at \<open>offset k\<close> of the blob, in insertion order; the central directory starts
  at \<open>offset n\<close>, the directory entry of entry \<open>k\<close> at the sum of the
  \<^verbatim>\<open>directorySize()\<close> before it, and its field at byte 42 holds \<open>offset k mod 2^32\<close>; the
  footer is the last 22 bytes of the blob and its field at byte 16 holds
  \<open>offset n mod 2^32\<close>.
\<close>

theorem build_records_offsets:
  assumes "build h options sched (added h items) = (Inr blob, w', st')" and "k < length items"
  shows "let es = entries w';
             offset = (\<lambda>j. sum_list (map entrySize (take j es)));
             position = (\<lambda>j. offset (length es) + sum_list (map directorySize (take j es)))
         in length es = length items \<and>
            we_rawName (es ! k) = toUtf8 h (fst (items ! k)) \<and>
            entryHeader (es ! k) = Inr (DataView_new (take 30 (drop (offset k) blob))) \<and>
            take (length (we_rawName (es ! k))) (drop (offset k + 30) blob) = we_rawName (es ! k) \<and>
            take (we_compressedSize (es ! k)) (drop (offset k + 30 + length (we_rawName (es ! k))) blob)
              = concat (compressedStream h (es ! k)) \<and>
            directoryParts (es ! k) (offset k)
              = Inr [take 46 (drop (position k) blob),
                     take (length (we_rawName (es ! k))) (drop (position k + 46) blob)] \<and>
            getUint32 (DataView_new blob) (position k + 42) = Inr (offset k mod 4294967296) \<and>
            length blob = position (length es) + 22 \<and>
            buildFooter (length es) (sum_list (map directorySize es)) (offset (length es))
              = Inr (DataView_new (drop (position (length es)) blob)) \<and>
            getUint32 (DataView_new blob) (position (length es) + 16)
              = Inr (offset (length es) mod 4294967296)"
proof -
  define es where "es = entries w'"
  define offset where "offset j = sum_list (map entrySize (take j es))" for j
  define position where
    "position j = offset (length es) + sum_list (map directorySize (take j es))" for j
  have all: "sum_list (map entrySize es) = offset (length es)"
    by (simp add: offset_def)
  note layout = build_layout [OF assms(1), folded es_def, folded offset_def,
      unfolded all, folded position_def]
  have len: "length es = length items" by (rule layout(1))
  with assms(2) have k: "k < length es" by simp
  have fin: "finished h (items ! k) (es ! k)"
    using layout(2) k by (simp add: list_all2_conv_all_nth)
  then have nm: "we_rawName (es ! k) = toUtf8 h (fst (items ! k))"
    and cs: "we_compressedSize (es ! k) = length (entry_data h (es ! k))"
    by (cases "items ! k"; simp add: finished_def)+
  from layout(7) [OF k] obtain r1 where
    l: "drop (offset k) blob = local_bytes h (es ! k) @ r1" by blast
  from layout(8) [OF k] obtain r2 where
    d: "drop (position k) blob = central_header (es ! k) (offset k) @ we_rawName (es ! k) @ r2"
    by blast
  have l30: "drop (offset k + 30) blob = we_rawName (es ! k) @ entry_data h (es ! k) @ r1"
    using arg_cong [OF l, of "drop 30"] by (simp add: local_bytes_def add.commute)
  have l30n: "drop (offset k + 30 + length (we_rawName (es ! k))) blob = entry_data h (es ! k) @ r1"
    using arg_cong [OF l30, of "drop (length (we_rawName (es ! k)))"] by (simp add: add.commute)
  have d46: "drop (position k + 46) blob = we_rawName (es ! k) @ r2"
    using arg_cong [OF d, of "drop 46"] by (simp add: add.commute)
  have d42: "drop (position k + 42) blob = le32 (offset k) @ we_rawName (es ! k) @ r2"
    using arg_cong [OF d, of "drop 42"] by (simp add: add.commute drop_42_central_header)
  have f: "drop (position (length es)) blob
      = footer_bytes (length es) (sum_list (map directorySize es)) (offset (length es))"
    by (rule layout(4))
  have f16: "drop (position (length es) + 16) blob = le32 (offset (length es)) @ le16 0"
    using arg_cong [OF f, of "drop 16"] by (simp add: add.commute drop_16_footer_bytes)
  have c3: "entryHeader (es ! k) = Inr (DataView_new (take 30 (drop (offset k) blob)))"
    by (simp add: l entryHeader_bytes local_header_def [symmetric] local_bytes_def)
  have c4: "take (length (we_rawName (es ! k))) (drop (offset k + 30) blob) = we_rawName (es ! k)"
    by (simp add: l30)
  have c5: "take (we_compressedSize (es ! k)) (drop (offset k + 30 + length (we_rawName (es ! k))) blob)
              = concat (compressedStream h (es ! k))"
    by (simp add: l30n cs) (simp add: entry_data_def)
  have c6: "directoryParts (es ! k) (offset k)
              = Inr [take 46 (drop (position k) blob),
                     take (length (we_rawName (es ! k))) (drop (position k + 46) blob)]"
    by (simp add: d d46 directoryParts_bytes)
  have c7: "getUint32 (DataView_new blob) (position k + 42) = Inr (offset k mod 4294967296)"
    by (rule getUint32_at [OF d42])
  have c8: "length blob = position (length es) + 22"
    by (rule layout(3))
  have c9: "buildFooter (length es) (sum_list (map directorySize es)) (offset (length es))
              = Inr (DataView_new (drop (position (length es)) blob))"
    by (simp add: f buildFooter_bytes)
  have c10: "getUint32 (DataView_new blob) (position (length es) + 16)
              = Inr (offset (length es) mod 4294967296)"
    by (rule getUint32_at [OF f16])
  show ?thesis
    unfolding Let_def es_def [symmetric]
    using len nm c3 c4 c5 c6 c7 c8 c9 c10
    unfolding offset_def position_def
    by (intro conjI)
qed

lemma toUtf8_ascii_host: "toUtf8 ascii_host s = map ucast s"
  by (simp add: toUtf8_def ascii_host_def)

text \<open>
  The recorded offset is not the sum itself in general: one stored entry \<^verbatim>\<open>a\<close> of
  \<open>2^32\<close> bytes has the size \<open>2^32 + 31\<close>, and the footer records 31.
\<close>

theorem build_offset_wraps_counterexample:
  "\<not> isl (fst (build ascii_host None []
        (added ascii_host [([0x61], ZipSource_new [replicate 4294967296 0] None,
                            Some \<lparr>compressed = Some False\<rparr>)])))
   \<and> sum_list (map entrySize (entries (fst (snd (build ascii_host None []
        (added ascii_host [([0x61], ZipSource_new [replicate 4294967296 0] None,
                            Some \<lparr>compressed = Some False\<rparr>)])))))) = 4294967327
   \<and> getUint32
        (DataView_new (projr (fst (build ascii_host None []
           (added ascii_host [([0x61], ZipSource_new [replicate 4294967296 0] None,
                               Some \<lparr>compressed = Some False\<rparr>)])))))
        (length (projr (fst (build ascii_host None []
           (added ascii_host [([0x61], ZipSource_new [replicate 4294967296 0] None,
                               Some \<lparr>compressed = Some False\<rparr>)])))) - 6)
       = Inr 31"
proof -
  let ?item = "([0x61], ZipSource_new [replicate 4294967296 0] None,
                 Some \<lparr>compressed = Some False\<rparr>) :: js_string \<times> ZipSource \<times> ZipEntryOptions option"
  let ?B = "build ascii_host None [] (added ascii_host [?item])"
  have "\<exists>blob w' st'. ?B = (Inr blob, w', st')"
    by (rule build_returns [OF added_no_callbacks]) simp
  then obtain blob w' st' where b: "?B = (Inr blob, w', st')" by blast
  define es where "es = entries w'"
  note layout = build_layout [OF b, folded es_def]
  from layout(1) obtain e where es: "es = [e]"
    by (cases es) auto
  from layout(2) have fin: "finished ascii_host ?item e"
    by (simp add: es)
  then have "we_compressedSize e = 4294967296" and "length (we_rawName e) = 1"
    by (simp_all add: finished_def entry_data_def compressedStream_def wants_deflate_def
          ZipSource_new_def toUtf8_ascii_host)
  then have size: "entrySize e = 4294967327"
    by (simp add: entrySize_def)
  from layout(3) have len: "length blob = 4294967327 + directorySize e + 22"
    by (simp add: es size)
  from layout(4) have f: "drop (4294967327 + directorySize e) blob
      = footer_bytes 1 (directorySize e) 4294967327"
    by (simp add: es size)
  have "drop (4294967327 + directorySize e + 16) blob = le32 4294967327 @ le16 0"
    using arg_cong [OF f, of "drop 16"] by (simp add: add.commute drop_16_footer_bytes)
  from getUint32_at [OF this] have "getUint32 (DataView_new blob) (length blob - 6) = Inr 31"
    by (simp add: len)
  then show ?thesis
    by (simp add: b es_def [symmetric] es size)
qed

text \<open>
  A stored entry \<^verbatim>\<open>a\<close> and a compressed entry \<^verbatim>\<open>b\<close>: the directory entry of
  \<^verbatim>\<open>b\<close> records the offset 32 and the footer the offset 65.
\<close>

lemma build_example:
  "build ascii_host None [1, 0]
     (added ascii_host
       [([0x61], ZipSource_new [[0x78]] None, Some \<lparr>compressed = Some False\<rparr>),
        ([0x62], ZipSource_new [[0x79], [0x7a]] (Some 5), None)])
   = (Inr [0x50, 0x4b, 3, 4, 0x14, 0, 0, 8, 0, 0, 0, 0, 0, 0, 0x83, 0x16,
          0xdc, 0x8c, 1, 0, 0, 0, 1, 0, 0, 0, 1, 0, 0, 0, 0x61, 0x78, 0x50,
          0x4b, 3, 4, 0x14, 0, 0, 8, 8, 0, 0, 0, 0, 0, 0x62, 0x48, 0xf4,
          0x0f, 2, 0, 0, 0, 2, 0, 0, 0, 1, 0, 0, 0, 0x62, 0x7a, 0x79, 0x50,
          0x4b, 1, 2, 0x14, 0, 0x14, 0, 0, 8, 0, 0, 0, 0, 0, 0, 0x83, 0x16,
          0xdc, 0x8c, 1, 0, 0, 0, 1, 0, 0, 0, 1, 0, 0, 0, 0, 0, 0, 0, 0, 0,
          0, 0, 0, 0, 0, 0, 0, 0, 0x61, 0x50, 0x4b, 1, 2, 0x14, 0, 0x14, 0,
          0, 8, 8, 0, 0, 0, 0, 0, 0x62, 0x48, 0xf4, 0x0f, 2, 0, 0, 0, 2, 0,
          0, 0, 1, 0, 0, 0, 0, 0, 0, 0, 0, 0, 0, 0, 0, 0, 0x20, 0, 0, 0,
          0x62, 0x50, 0x4b, 5, 6, 0, 0, 0, 0, 2, 0, 2, 0, 0x5e, 0, 0, 0,
          0x41, 0, 0, 0, 0, 0],
      \<lparr>entries =
          [\<lparr>we_rawName = [0x61], we_flags = 0x0800, we_method = 0, we_compressedSize = 1,
             we_uncompressedSize = 1, we_streamSizeGuess = 0, we_crc32 = 0x8CDC1683,
             we_source = [], we_enqueued = [[0x78]], we_deflate = False,
             we_progressCallback = None\<rparr>,
           \<lparr>we_rawName = [0x62], we_flags = 0x0800, we_method = 8, we_compressedSize = 2,
             we_uncompressedSize = 2, we_streamSizeGuess = 5, we_crc32 = 0x0FF44862,
             we_source = [], we_enqueued = [[0x79], [0x7a]], we_deflate = True,
             we_progressCallback = None\<rparr>]\<rparr>,
      \<lparr>cs_entryProgress = None, cs_calls = []\<rparr>)"
  by (simp add: build_def added_def write_eval ascii_host_def crc32_Nil crc32_x crc32_yz
        local_header_def central_header_def footer_bytes_def le32_def le16_def)

theorem build_records_offsets_witness:
  "build ascii_host None [1, 0]
     (added ascii_host
       [([0x61], ZipSource_new [[0x78]] None, Some \<lparr>compressed = Some False\<rparr>),
        ([0x62], ZipSource_new [[0x79], [0x7a]] (Some 5), None)])
   = (Inr [0x50, 0x4b, 3, 4, 0x14, 0, 0, 8, 0, 0, 0, 0, 0, 0, 0x83, 0x16,
          0xdc, 0x8c, 1, 0, 0, 0, 1, 0, 0, 0, 1, 0, 0, 0, 0x61, 0x78, 0x50,
          0x4b, 3, 4, 0x14, 0, 0, 8, 8, 0, 0, 0, 0, 0, 0x62, 0x48, 0xf4,
          0x0f, 2, 0, 0, 0, 2, 0, 0, 0, 1, 0, 0, 0, 0x62, 0x7a, 0x79, 0x50,
          0x4b, 1, 2, 0x14, 0, 0x14, 0, 0, 8, 0, 0, 0, 0, 0, 0, 0x83, 0x16,
          0xdc, 0x8c, 1, 0, 0, 0, 1, 0, 0, 0, 1, 0, 0, 0, 0, 0, 0, 0, 0, 0,
          0, 0, 0, 0, 0, 0, 0, 0, 0x61, 0x50, 0x4b, 1, 2, 0x14, 0, 0x14, 0,
          0, 8, 8, 0, 0, 0, 0, 0, 0x62, 0x48, 0xf4, 0x0f, 2, 0, 0, 0, 2, 0,
          0, 0, 1, 0, 0, 0, 0, 0, 0, 0, 0, 0, 0, 0, 0, 0, 0x20, 0, 0, 0,
          0x62, 0x50, 0x4b, 5, 6, 0, 0, 0, 0, 2, 0, 2, 0, 0x5e, 0, 0, 0,
          0x41, 0, 0, 0, 0, 0],
      \<lparr>entries =
          [\<lparr>we_rawName = [0x61], we_flags = 0x0800, we_method = 0, we_compressedSize = 1,
             we_uncompressedSize = 1, we_streamSizeGuess = 0, we_crc32 = 0x8CDC1683,
             we_source = [], we_enqueued = [[0x78]], we_deflate = False,
             we_progressCallback = None\<rparr>,
           \<lparr>we_rawName = [0x62], we_flags = 0x0800, we_method = 8, we_compressedSize = 2,
             we_uncompressedSize = 2, we_streamSizeGuess = 5, we_crc32 = 0x0FF44862,
             we_source = [], we_enqueued = [[0x79], [0x7a]], we_deflate = True,
             we_progressCallback = None\<rparr>]\<rparr>,
      \<lparr>cs_entryProgress = None, cs_calls = []\<rparr>)
   \<and> (1::nat) < length
       [([0x61], ZipSource_new [[0x78]] None, Some \<lparr>compressed = Some False\<rparr>),
        ([0x62], ZipSource_new [[0x79], [0x7a]] (Some 5), None)]
   \<and> getUint32 (DataView_new [0x50, 0x4b, 3, 4, 0x14, 0, 0, 8, 0, 0, 0, 0, 0, 0, 0x83, 0x16,
          0xdc, 0x8c, 1, 0, 0, 0, 1, 0, 0, 0, 1, 0, 0, 0, 0x61, 0x78, 0x50,
          0x4b, 3, 4, 0x14, 0, 0, 8, 8, 0, 0, 0, 0, 0, 0x62, 0x48, 0xf4,
          0x0f, 2, 0, 0, 0, 2, 0, 0, 0, 1, 0, 0, 0, 0x62, 0x7a, 0x79, 0x50,
          0x4b, 1, 2, 0x14, 0, 0x14, 0, 0, 8, 0, 0, 0, 0, 0, 0, 0x83, 0x16,
          0xdc, 0x8c, 1, 0, 0, 0, 1, 0, 0, 0, 1, 0, 0, 0, 0, 0, 0, 0, 0, 0,
          0, 0, 0, 0, 0, 0, 0, 0, 0x61, 0x50, 0x4b, 1, 2, 0x14, 0, 0x14, 0,
          0, 8, 8, 0, 0, 0, 0, 0, 0x62, 0x48, 0xf4, 0x0f, 2, 0, 0, 0, 2, 0,
          0, 0, 1, 0, 0, 0, 0, 0, 0, 0, 0, 0, 0, 0, 0, 0, 0x20, 0, 0, 0,
          0x62, 0x50, 0x4b, 5, 6, 0, 0, 0, 0, 2, 0, 2, 0, 0x5e, 0, 0, 0,
          0x41, 0, 0, 0, 0, 0]) 154 = Inr 32
   \<and> getUint32 (DataView_new [0x50, 0x4b, 3, 4, 0x14, 0, 0, 8, 0, 0, 0, 0, 0, 0, 0x83, 0x16,
          0xdc, 0x8c, 1, 0, 0, 0, 1, 0, 0, 0, 1, 0, 0, 0, 0x61, 0x78, 0x50,
          0x4b, 3, 4, 0x14, 0, 0, 8, 8, 0, 0, 0, 0, 0, 0x62, 0x48, 0xf4,
          0x0f, 2, 0, 0, 0, 2, 0, 0, 0, 1, 0, 0, 0, 0x62, 0x7a, 0x79, 0x50,
          0x4b, 1, 2, 0x14, 0, 0x14, 0, 0, 8, 0, 0, 0, 0, 0, 0, 0x83, 0x16,
          0xdc, 0x8c, 1, 0, 0, 0, 1, 0, 0, 0, 1, 0, 0, 0, 0, 0, 0, 0, 0, 0,
          0, 0, 0, 0, 0, 0, 0, 0, 0x61, 0x50, 0x4b, 1, 2, 0x14, 0, 0x14, 0,
          0, 8, 8, 0, 0, 0, 0, 0, 0x62, 0x48, 0xf4, 0x0f, 2, 0, 0, 0, 2, 0,
          0, 0, 1, 0, 0, 0, 0, 0, 0, 0, 0, 0, 0, 0, 0, 0, 0x20, 0, 0, 0,
          0x62, 0x50, 0x4b, 5, 6, 0, 0, 0, 0, 2, 0, 2, 0, 0x5e, 0, 0, 0,
          0x41, 0, 0, 0, 0, 0]) 175 = Inr 65"
  using build_records_offsets [OF build_example, of 1] build_example
  by (simp add: Let_def entrySize_def directorySize_def)

section \<open>Reading back a built archive\<close>

lemma central_header_record: "central_header e off = encode_record_header (record_of_entry e off)"
  by (simp add: central_header_def encode_record_header_def record_of_entry_def)

lemma encode_record_of_entry:
  "encode_record (record_of_entry e off) = central_header e off @ we_rawName e"
  by (simp add: encode_record_def central_header_record) (simp add: record_of_entry_def)

lemma central_directory_records:
  "central_directory es off = concat (map encode_record (directory_records es off))"
  by (induction es arbitrary: off) (simp_all add: encode_record_of_entry)

lemma length_directory_records [simp]: "length (directory_records es off) = length es"
  by (induction es arbitrary: off) simp_all

lemma nth_directory_records:
  "k < length es \<Longrightarrow>
   directory_records es off ! k = record_of_entry (es ! k) (off + sum_list (map entrySize (take k es)))"
proof (induction es arbitrary: k off)
  case Nil
  then show ?case by simp
next
  case (Cons e es)
  then show ?case by (cases k) (simp_all add: add.assoc)
qed

lemma well_formed_record_of_entry:
  "length (we_rawName e) < 65536 \<Longrightarrow> well_formed_record (record_of_entry e off)"
  by (simp add: well_formed_record_def record_of_entry_def)

lemma well_formed_directory_records:
  "\<forall>e\<in>set es. length (we_rawName e) < 65536 \<Longrightarrow>
   \<forall>r\<in>set (directory_records es off). well_formed_record r"
  by (induction es arbitrary: off) (simp_all add: well_formed_record_of_entry)

lemma Blob_slice_nat:
  "Blob_slice blob (int a) (int a + int b) = take b (drop a blob)"
  by (auto simp: Blob_slice_def Let_def min_def max_def nat_diff_distrib nat_add_distrib)

lemma ZipData_slice_nat: "ZipData_slice blob (int a) (int b) = take b (drop a blob)"
  by (simp add: ZipData_slice_def Blob_slice_nat)

lemma footer_bytes_fields:
  "u32 (footer_bytes n ds off) 0 = 0x06054b50"
  "u16 (footer_bytes n ds off) 4 = 0"
  "u16 (footer_bytes n ds off) 6 = 0"
  "u16 (footer_bytes n ds off) 8 = n mod 65536"
  "u16 (footer_bytes n ds off) 10 = n mod 65536"
  "u32 (footer_bytes n ds off) 12 = ds mod 4294967296"
  "u32 (footer_bytes n ds off) 16 = off mod 4294967296"
  "u16 (footer_bytes n ds off) 20 = 0"
  by (simp_all add: footer_bytes_def u16_def u32_def le_value_le16 le_value_le32)

lemma ZipFooter_read_footer_bytes:
  assumes "drop (length blob - 22) blob = footer_bytes n ds off" and "22 \<le> length blob"
  shows "ZipFooter_read blob =
     Inr \<lparr>ft_diskNumber = 0, ft_diskStart = 0, ft_diskEntries = n mod 65536,
          ft_totalEntries = n mod 65536, ft_directorySize = ds mod 4294967296,
          ft_directoryOffset = off mod 4294967296, ft_commentLength = 0\<rparr>"
proof -
  have "ZipFooter_read blob = ZipFooter_new (DataView_new (footer_bytes n ds off))"
    using assms by (simp add: ZipFooter_read_def ZipData_view_def footer_window)
  also have "\<dots> = Inr \<lparr>ft_diskNumber = 0, ft_diskStart = 0, ft_diskEntries = n mod 65536,
          ft_totalEntries = n mod 65536, ft_directorySize = ds mod 4294967296,
          ft_directoryOffset = off mod 4294967296, ft_commentLength = 0\<rparr>"
    by (simp add: ZipFooter_new_ok footer_bytes_fields)
  finally show ?thesis .
qed

text \<open>Reading back the directory of a built archive below 4 GiB.\<close>

lemma ZipDirectory_read_built:
  assumes "build h options sched (added h items) = (Inr blob, w', st')"
    and "sum_list (map entrySize (entries w')) < 4294967296"
    and "sum_list (map directorySize (entries w')) < 4294967296"
  shows "ZipDirectory_read blob =
     Inr \<lparr>zd_footer =
            \<lparr>ft_diskNumber = 0, ft_diskStart = 0,
             ft_diskEntries = length (entries w') mod 65536,
             ft_totalEntries = length (entries w') mod 65536,
             ft_directorySize = sum_list (map directorySize (entries w')),
             ft_directoryOffset = sum_list (map entrySize (entries w')),
             ft_commentLength = 0\<rparr>,
          zd_data = DataView_new (central_directory (entries w') 0)\<rparr>"
proof -
  define es where "es = entries w'"
  note layout = build_layout [OF assms(1), folded es_def]
  let ?OFF = "sum_list (map entrySize es)"
  let ?DS = "sum_list (map directorySize es)"
  have len: "length blob = ?OFF + ?DS + 22"
    using layout(3) by simp
  have "drop (length blob - 22) blob = footer_bytes (length es) ?DS ?OFF"
    using layout(4) by (simp add: len)
  from ZipFooter_read_footer_bytes [OF this] len
  have f: "ZipFooter_read blob =
     Inr \<lparr>ft_diskNumber = 0, ft_diskStart = 0, ft_diskEntries = length es mod 65536,
          ft_totalEntries = length es mod 65536, ft_directorySize = ?DS mod 4294967296,
          ft_directoryOffset = ?OFF mod 4294967296, ft_commentLength = 0\<rparr>"
    by simp
  have d: "take ?DS (drop ?OFF blob) = central_directory es 0"
    using layout(6) by simp
  show ?thesis
    using assms(2,3) unfolding es_def [symmetric]
    by (simp add: ZipDirectory_read_def f ZipData_view_def ZipData_slice_nat d)
qed

lemma sum_list_take_le: "sum_list (map f (take k xs)) \<le> sum_list (map (f :: 'a \<Rightarrow> nat) xs)"
proof -
  have "sum_list (map f (take k xs @ drop k xs))
      = sum_list (map f (take k xs)) + sum_list (map f (drop k xs))"
    by (simp only: map_append sum_list_append)
  then show ?thesis by simp
qed

lemma nth_le_sum_list: "k < length xs \<Longrightarrow> (f :: 'a \<Rightarrow> nat) (xs ! k) \<le> sum_list (map f xs)"
proof -
  assume "k < length xs"
  then have "f (xs ! k) \<in> set (map f xs)" by simp
  then show ?thesis by (simp add: member_le_sum_list)
qed

lemma ZipReader_entries_built:
  assumes "build h options sched (added h items) = (Inr blob, w', st')"
    and "sum_list (map entrySize (entries w')) < 4294967296"
    and "sum_list (map directorySize (entries w')) < 4294967296"
    and "\<forall>e\<in>set (entries w'). length (we_rawName e) < 65536"
  shows "ZipReader_entries blob =
     (map (ZipEntry_fromDirectoryEntry blob) (map parsed_record (directory_records (entries w') 0)),
      None)"
proof -
  have "ZipDirectory_entries_from
          (DataView_new ([] @ concat (map encode_record (directory_records (entries w') 0))))
          (length ([] :: byte list))
        = (map parsed_record (directory_records (entries w') 0), None)"
    by (rule entries_from_encoded) (rule well_formed_directory_records [OF assms(4)])
  then show ?thesis
    by (simp add: ZipReader_entries_def ZipDirectory_read_built [OF assms(1-3)]
          ZipDirectory_entries_def central_directory_records)
qed

lemma finished_method:
  "finished h item e \<Longrightarrow> we_method e = 0 \<or> we_method e = 8"
  by (cases item) (simp add: finished_def)

lemma parsed_record_of_entry_name:
  "de_rawName (parsed_record (record_of_entry e off)) = we_rawName e"
  "de_rawExtraField (parsed_record (record_of_entry e off)) = []"
  "de_compressionMethod (parsed_record (record_of_entry e off)) = we_method e mod 65536"
  "de_compressedSize (parsed_record (record_of_entry e off)) = we_compressedSize e mod 4294967296"
  "de_relativeOffset (parsed_record (record_of_entry e off)) = off mod 4294967296"
  by (simp_all add: parsed_record_def record_of_entry_def)

lemma fromDirectoryEntry_fields:
  "re_rawName (ZipEntry_fromDirectoryEntry blob de) = de_rawName de"
  "lh_method (re_header (ZipEntry_fromDirectoryEntry blob de)) = de_compressionMethod de"
  "re_compressedData (ZipEntry_fromDirectoryEntry blob de) =
     take (de_compressedSize de)
       (drop (de_relativeOffset de + 30 + length (de_rawName de) + length (de_rawExtraField de)) blob)"
proof -
  show "re_rawName (ZipEntry_fromDirectoryEntry blob de) = de_rawName de"
    by (simp add: ZipEntry_fromDirectoryEntry_def Let_def)
  show "lh_method (re_header (ZipEntry_fromDirectoryEntry blob de)) = de_compressionMethod de"
    by (simp add: ZipEntry_fromDirectoryEntry_def Let_def ZipLocalHeader_fromDirectoryEntry_def)
  show "re_compressedData (ZipEntry_fromDirectoryEntry blob de) =
     take (de_compressedSize de)
       (drop (de_relativeOffset de + 30 + length (de_rawName de) + length (de_rawExtraField de)) blob)"
    by (simp only: ZipEntry_fromDirectoryEntry_def Let_def ReadEntry.simps ZipData_slice_nat
          ZipLocalHeader_SIZE_def)
qed

text \<open>The entry that the reader makes of the directory entry written for entry k.\<close>

lemma fromDirectoryEntry_built:
  assumes "build h options sched (added h items) = (Inr blob, w', st')"
    and "sum_list (map entrySize (entries w')) < 4294967296"
    and "k < length (entries w')"
  shows "re_rawName (ZipEntry_fromDirectoryEntry blob
           (parsed_record (record_of_entry (entries w' ! k)
              (sum_list (map entrySize (take k (entries w'))))))) = we_rawName (entries w' ! k)"
    and "re_compressedData (ZipEntry_fromDirectoryEntry blob
           (parsed_record (record_of_entry (entries w' ! k)
              (sum_list (map entrySize (take k (entries w'))))))) = entry_data h (entries w' ! k)"
    and "lh_method (re_header (ZipEntry_fromDirectoryEntry blob
           (parsed_record (record_of_entry (entries w' ! k)
              (sum_list (map entrySize (take k (entries w')))))))) = we_method (entries w' ! k)"
proof -
  define es where "es = entries w'"
  define e where "e = es ! k"
  define off where "off = sum_list (map entrySize (take k es))"
  note layout = build_layout [OF assms(1), folded es_def]
  have k: "k < length es" using assms(3) by (simp add: es_def)
  have fin: "finished h (items ! k) e"
    using layout(2) k by (simp add: list_all2_conv_all_nth e_def)
  have cs: "we_compressedSize e = length (entry_data h e)"
    using fin by (rule finished_compressedSize)
  have m: "we_method e = 0 \<or> we_method e = 8"
    using fin by (rule finished_method)
  have "off \<le> sum_list (map entrySize es)"
    unfolding off_def by (rule sum_list_take_le)
  with assms(2) have off: "off mod 4294967296 = off" by (simp add: es_def)
  have "entrySize e \<le> sum_list (map entrySize es)"
    unfolding e_def using k by (rule nth_le_sum_list)
  with assms(2) have "we_compressedSize e < 4294967296"
    by (simp add: entrySize_def es_def)
  then have csm: "we_compressedSize e mod 4294967296 = we_compressedSize e" by simp
  have mm: "we_method e mod 65536 = we_method e"
    using m by (rule disjE) simp_all
  from layout(7) [OF k] obtain rest where
    l: "drop off blob = local_bytes h e @ rest" by (auto simp: off_def e_def)
  have "drop (30 + length (we_rawName e)) (drop off blob) = entry_data h e @ rest"
    unfolding l by (simp add: local_bytes_def)
  then have d: "drop (off + 30 + length (we_rawName e)) blob = entry_data h e @ rest"
    by (simp add: add.commute add.left_commute)
  let ?r = "ZipEntry_fromDirectoryEntry blob (parsed_record (record_of_entry e off))"
  have 1: "re_rawName ?r = we_rawName e"
    by (simp only: fromDirectoryEntry_fields parsed_record_of_entry_name)
  have 2: "lh_method (re_header ?r) = we_method e"
    by (simp only: fromDirectoryEntry_fields parsed_record_of_entry_name mm)
  have "re_compressedData ?r =
      take (we_compressedSize e) (drop (off + 30 + length (we_rawName e) + length ([] :: byte list)) blob)"
    by (simp only: fromDirectoryEntry_fields parsed_record_of_entry_name off csm)
  then have 3: "re_compressedData ?r = entry_data h e"
    by (simp add: d cs)
  from 1 2 3 show
    "re_rawName (ZipEntry_fromDirectoryEntry blob
           (parsed_record (record_of_entry (entries w' ! k)
              (sum_list (map entrySize (take k (entries w'))))))) = we_rawName (entries w' ! k)"
    "re_compressedData (ZipEntry_fromDirectoryEntry blob
           (parsed_record (record_of_entry (entries w' ! k)
              (sum_list (map entrySize (take k (entries w'))))))) = entry_data h (entries w' ! k)"
    "lh_method (re_header (ZipEntry_fromDirectoryEntry blob
           (parsed_record (record_of_entry (entries w' ! k)
              (sum_list (map entrySize (take k (entries w')))))))) = we_method (entries w' ! k)"
    unfolding e_def off_def es_def by simp_all
qed

lemma read_back_content:
  assumes inverse: "\<forall>cs ds. concat ds = concat (CompressionStream h cs) \<longrightarrow>
                      concat (DecompressionStream h ds) = concat cs"
    and stream: "\<forall>b. concat (Blob_stream h b) = b"
    and fin: "finished h (nm, data, eopts) e"
    and r: "re_compressedData r = entry_data h e" "lh_method (re_header r) = we_method e"
  shows "concat (uncompressedStream h r) = concat (zs_stream data)"
proof (cases "wants_deflate eopts")
  case False
  with fin have "we_method e = 0" "entry_data h e = concat (zs_stream data)"
    by (simp_all add: finished_def entry_data_def compressedStream_def)
  then show ?thesis
    using stream by (simp add: uncompressedStream_def r)
next
  case True
  with fin have m: "we_method e = 8"
    and d: "entry_data h e = concat (CompressionStream h (zs_stream data))"
    by (simp_all add: finished_def entry_data_def compressedStream_def)
  have "concat (Blob_stream h (entry_data h e)) = concat (CompressionStream h (zs_stream data))"
    using stream by (simp add: d)
  with inverse have "concat (DecompressionStream h (Blob_stream h (entry_data h e)))
      = concat (zs_stream data)"
    by blast
  then show ?thesis
    by (simp add: uncompressedStream_def r m)
qed

lemma roundtrip_items:
  assumes b: "build h options sched (added h items) = (Inr blob, w', st')"
    and sizes: "sum_list (map entrySize (entries w')) < 4294967296"
      "sum_list (map directorySize (entries w')) < 4294967296"
    and inverse: "\<forall>cs ds. concat ds = concat (CompressionStream h cs) \<longrightarrow>
                      concat (DecompressionStream h ds) = concat cs"
    and stream: "\<forall>b. concat (Blob_stream h b) = b"
    and names: "\<forall>item\<in>set items. fromUtf8 h (toUtf8 h (fst item)) = fst item \<and>
                      length (toUtf8 h (fst item)) < 65536"
  shows "snd (ZipReader_entries blob) = None"
    and "map (\<lambda>e. (ZipEntry_name h e, concat (uncompressedStream h e))) (fst (ZipReader_entries blob))
           = map (\<lambda>item. (fst item, concat (zs_stream (fst (snd item))))) items"
proof -
  define es where "es = entries w'"
  note layout = build_layout [OF b, folded es_def]
  have len: "length es = length items" by (rule layout(1))
  have fin: "\<And>k. k < length items \<Longrightarrow> finished h (items ! k) (es ! k)"
    using layout(2) by (simp add: list_all2_conv_all_nth)
  have nm: "\<And>k. k < length items \<Longrightarrow> we_rawName (es ! k) = toUtf8 h (fst (items ! k))"
  proof -
    fix k assume "k < length items"
    from fin [OF this] show "we_rawName (es ! k) = toUtf8 h (fst (items ! k))"
      by (cases "items ! k") (simp add: finished_def)
  qed
  have short: "\<forall>e\<in>set es. length (we_rawName e) < 65536"
  proof
    fix e assume "e \<in> set es"
    then obtain k where k: "k < length es" "e = es ! k"
      by (auto simp: in_set_conv_nth)
    with len names nm [of k] show "length (we_rawName e) < 65536"
      by simp
  qed
  have rd: "ZipReader_entries blob =
     (map (ZipEntry_fromDirectoryEntry blob) (map parsed_record (directory_records es 0)), None)"
    unfolding es_def using b sizes short [unfolded es_def] by (rule ZipReader_entries_built)
  show "snd (ZipReader_entries blob) = None"
    by (simp add: rd)
  show "map (\<lambda>e. (ZipEntry_name h e, concat (uncompressedStream h e))) (fst (ZipReader_entries blob))
           = map (\<lambda>item. (fst item, concat (zs_stream (fst (snd item))))) items"
  proof (rule nth_equalityI)
    show "length (map (\<lambda>e. (ZipEntry_name h e, concat (uncompressedStream h e)))
              (fst (ZipReader_entries blob)))
          = length (map (\<lambda>item. (fst item, concat (zs_stream (fst (snd item))))) items)"
      by (simp add: rd len)
  next
    fix k
    assume "k < length (map (\<lambda>e. (ZipEntry_name h e, concat (uncompressedStream h e)))
              (fst (ZipReader_entries blob)))"
    then have k: "k < length items" by (simp add: rd len)
    then have ke: "k < length (entries w')" by (simp add: len [unfolded es_def])
    let ?r = "ZipEntry_fromDirectoryEntry blob
           (parsed_record (record_of_entry (es ! k) (sum_list (map entrySize (take k es)))))"
    obtain n d eo where it: "items ! k = (n, d, eo)" by (cases "items ! k") auto
    note f = fromDirectoryEntry_built [OF b sizes(1) ke, folded es_def]
    have "ZipEntry_name h ?r = fst (items ! k)"
      using names k by (simp add: ZipEntry_name_def f(1) nm)
    moreover have "concat (uncompressedStream h ?r) = concat (zs_stream d)"
      using inverse stream fin [OF k, unfolded it] f(2) f(3) by (rule read_back_content)
    ultimately show "map (\<lambda>e. (ZipEntry_name h e, concat (uncompressedStream h e)))
              (fst (ZipReader_entries blob)) ! k
          = map (\<lambda>item. (fst item, concat (zs_stream (fst (snd item))))) items ! k"
      using k by (simp add: rd len nth_directory_records it)
  qed
qed

lemma addBlob_add: "addBlob h nm content options = add h nm (fromBlob h content) options"
  by (rule ext) (simp add: addBlob_def)

lemma fold_addBlob_added:
  "fold (\<lambda>(nm, content). addBlob h nm content options) pairs ZipWriter_new
     = added h (map (\<lambda>(nm, content). (nm, fromBlob h content, options)) pairs)"
  by (simp add: added_def fold_map comp_def addBlob_add case_prod_unfold)

lemma ascii_host_inverse:
  "\<forall>cs ds. concat ds = concat (CompressionStream ascii_host cs) \<longrightarrow>
     concat (DecompressionStream ascii_host ds) = concat cs"
  by (simp add: ascii_host_def)

lemma ascii_host_stream: "\<forall>b. concat (Blob_stream ascii_host b) = b"
  by (simp add: ascii_host_def)

text \<open>
  Claim C2, for names and sizes that fit their fields. Take a finite list of (name,
  content) pairs in which every name survives UTF-8 encoding and decoding and encodes
  to fewer than 65536 bytes, add them with \<^verbatim>\<open>addBlob\<close>, in order, and call \<^verbatim>\<open>build\<close>
  without options; let the sum of the entries' \<^verbatim>\<open>entrySize()\<close> and the sum of their
  \<^verbatim>\<open>directorySize()\<close> be below \<open>2^32\<close>. Then \<^verbatim>\<open>build\<close> returns a blob, and reading
  it with \<^verbatim>\<open>ZipReader.entries\<close> yields, with no exception, entries whose decoded names
  and uncompressed contents are the pairs written, in the same order - the host's
  decompression being inverse to its compression and a blob streaming its bytes.
\<close>

theorem write_read_roundtrip:
  assumes inverse: "\<forall>cs ds. concat ds = concat (CompressionStream h cs) \<longrightarrow>
                      concat (DecompressionStream h ds) = concat cs"
    and stream: "\<forall>b. concat (Blob_stream h b) = b"
    and names: "\<forall>(nm, content)\<in>set pairs.
                  fromUtf8 h (toUtf8 h nm) = nm \<and> length (toUtf8 h nm) < 65536"
    and built: "build h None sched
                  (fold (\<lambda>(nm, content). addBlob h nm content options) pairs ZipWriter_new)
                = (result, w', st')"
    and sizes: "sum_list (map entrySize (entries w')) < 4294967296"
      "sum_list (map directorySize (entries w')) < 4294967296"
  shows "\<exists>blob. result = Inr blob \<and>
           snd (ZipReader_entries blob) = None \<and>
           map (\<lambda>e. (ZipEntry_name h e, concat (uncompressedStream h e)))
             (fst (ZipReader_entries blob)) = pairs"
proof -
  let ?items = "map (\<lambda>(nm, content). (nm, fromBlob h content, options)) pairs"
  have "\<exists>blob w'' st''. build h None sched (added h ?items) = (Inr blob, w'', st'')"
    by (rule build_returns [OF added_no_callbacks]) simp
  with built obtain blob where r: "result = Inr blob"
    and b: "build h None sched (added h ?items) = (Inr blob, w', st')"
    by (auto simp: fold_addBlob_added)
  have n: "\<forall>item\<in>set ?items. fromUtf8 h (toUtf8 h (fst item)) = fst item \<and>
                      length (toUtf8 h (fst item)) < 65536"
    using names by auto
  have c: "map (\<lambda>item. (fst item, concat (zs_stream (fst (snd item))))) ?items = pairs"
    using stream by (simp add: comp_def case_prod_unfold fromBlob_def ZipSource_new_def)
  from roundtrip_items [OF b sizes inverse stream n] r c show ?thesis
    by simp
qed

text \<open>Two entries written and read back.\<close>

lemma roundtrip_example:
  "build ascii_host None []
     (fold (\<lambda>(nm, content). addBlob ascii_host nm content None)
        [([0x61], [0x78]), ([0x62], [0x79, 0x7a])] ZipWriter_new)
   = (Inr [0x50, 0x4b, 3, 4, 0x14, 0, 0, 8, 8, 0, 0, 0, 0, 0, 0x83, 0x16,
          0xdc, 0x8c, 1, 0, 0, 0, 1, 0, 0, 0, 1, 0, 0, 0, 0x61, 0x78, 0x50,
          0x4b, 3, 4, 0x14, 0, 0, 8, 8, 0, 0, 0, 0, 0, 0x62, 0x48, 0xf4,
          0x0f, 2, 0, 0, 0, 2, 0, 0, 0, 1, 0, 0, 0, 0x62, 0x7a, 0x79, 0x50,
          0x4b, 1, 2, 0x14, 0, 0x14, 0, 0, 8, 8, 0, 0, 0, 0, 0, 0x83, 0x16,
          0xdc, 0x8c, 1, 0, 0, 0, 1, 0, 0, 0, 1, 0, 0, 0, 0, 0, 0, 0, 0, 0,
          0, 0, 0, 0, 0, 0, 0, 0, 0x61, 0x50, 0x4b, 1, 2, 0x14, 0, 0x14, 0,
          0, 8, 8, 0, 0, 0, 0, 0, 0x62, 0x48, 0xf4, 0x0f, 2, 0, 0, 0, 2, 0,
          0, 0, 1, 0, 0, 0, 0, 0, 0, 0, 0, 0, 0, 0, 0, 0, 0x20, 0, 0, 0,
          0x62, 0x50, 0x4b, 5, 6, 0, 0, 0, 0, 2, 0, 2, 0, 0x5e, 0, 0, 0,
          0x41, 0, 0, 0, 0, 0],
      \<lparr>entries =
          [\<lparr>we_rawName = [0x61], we_flags = 0x0800, we_method = 8, we_compressedSize = 1,
             we_uncompressedSize = 1, we_streamSizeGuess = 1, we_crc32 = 0x8CDC1683,
             we_source = [], we_enqueued = [[0x78]], we_deflate = True,
             we_progressCallback = None\<rparr>,
           \<lparr>we_rawName = [0x62], we_flags = 0x0800, we_method = 8, we_compressedSize = 2,
             we_uncompressedSize = 2, we_streamSizeGuess = 2, we_crc32 = 0x0FF44862,
             we_source = [], we_enqueued = [[0x79, 0x7a]], we_deflate = True,
             we_progressCallback = None\<rparr>]\<rparr>,
      \<lparr>cs_entryProgress = None, cs_calls = []\<rparr>)"
  by (simp add: build_def write_eval ascii_host_def crc32_Nil crc32_x crc32_yz_chunk
        local_header_def central_header_def footer_bytes_def le32_def le16_def)

theorem write_read_roundtrip_witness:
  "build ascii_host None []
     (fold (\<lambda>(nm, content). addBlob ascii_host nm content None)
        [([0x61], [0x78]), ([0x62], [0x79, 0x7a])] ZipWriter_new)
   = (Inr [0x50, 0x4b, 3, 4, 0x14, 0, 0, 8, 8, 0, 0, 0, 0, 0, 0x83, 0x16,
          0xdc, 0x8c, 1, 0, 0, 0, 1, 0, 0, 0, 1, 0, 0, 0, 0x61, 0x78, 0x50,
          0x4b, 3, 4, 0x14, 0, 0, 8, 8, 0, 0, 0, 0, 0, 0x62, 0x48, 0xf4,
          0x0f, 2, 0, 0, 0, 2, 0, 0, 0, 1, 0, 0, 0, 0x62, 0x7a, 0x79, 0x50,
          0x4b, 1, 2, 0x14, 0, 0x14, 0, 0, 8, 8, 0, 0, 0, 0, 0, 0x83, 0x16,
          0xdc, 0x8c, 1, 0, 0, 0, 1, 0, 0, 0, 1, 0, 0, 0, 0, 0, 0, 0, 0, 0,
          0, 0, 0, 0, 0, 0, 0, 0, 0x61, 0x50, 0x4b, 1, 2, 0x14, 0, 0x14, 0,
          0, 8, 8, 0, 0, 0, 0, 0, 0x62, 0x48, 0xf4, 0x0f, 2, 0, 0, 0, 2, 0,
          0, 0, 1, 0, 0, 0, 0, 0, 0, 0, 0, 0, 0, 0, 0, 0, 0x20, 0, 0, 0,
          0x62, 0x50, 0x4b, 5, 6, 0, 0, 0, 0, 2, 0, 2, 0, 0x5e, 0, 0, 0,
          0x41, 0, 0, 0, 0, 0],
      \<lparr>entries =
          [\<lparr>we_rawName = [0x61], we_flags = 0x0800, we_method = 8, we_compressedSize = 1,
             we_uncompressedSize = 1, we_streamSizeGuess = 1, we_crc32 = 0x8CDC1683,
             we_source = [], we_enqueued = [[0x78]], we_deflate = True,
             we_progressCallback = None\<rparr>,
           \<lparr>we_rawName = [0x62], we_flags = 0x0800, we_method = 8, we_compressedSize = 2,
             we_uncompressedSize = 2, we_streamSizeGuess = 2, we_crc32 = 0x0FF44862,
             we_source = [], we_enqueued = [[0x79, 0x7a]], we_deflate = True,
             we_progressCallback = None\<rparr>]\<rparr>,
      \<lparr>cs_entryProgress = None, cs_calls = []\<rparr>)
   \<and> fromUtf8 ascii_host (toUtf8 ascii_host [0x61]) = [0x61]
   \<and> fromUtf8 ascii_host (toUtf8 ascii_host [0x62]) = [0x62]
   \<and> snd (ZipReader_entries [0x50, 0x4b, 3, 4, 0x14, 0, 0, 8, 8, 0, 0, 0, 0, 0, 0x83, 0x16,
          0xdc, 0x8c, 1, 0, 0, 0, 1, 0, 0, 0, 1, 0, 0, 0, 0x61, 0x78, 0x50,
          0x4b, 3, 4, 0x14, 0, 0, 8, 8, 0, 0, 0, 0, 0, 0x62, 0x48, 0xf4,
          0x0f, 2, 0, 0, 0, 2, 0, 0, 0, 1, 0, 0, 0, 0x62, 0x7a, 0x79, 0x50,
          0x4b, 1, 2, 0x14, 0, 0x14, 0, 0, 8, 8, 0, 0, 0, 0, 0, 0x83, 0x16,
          0xdc, 0x8c, 1, 0, 0, 0, 1, 0, 0, 0, 1, 0, 0, 0, 0, 0, 0, 0, 0, 0,
          0, 0, 0, 0, 0, 0, 0, 0, 0x61, 0x50, 0x4b, 1, 2, 0x14, 0, 0x14, 0,
          0, 8, 8, 0, 0, 0, 0, 0, 0x62, 0x48, 0xf4, 0x0f, 2, 0, 0, 0, 2, 0,
          0, 0, 1, 0, 0, 0, 0, 0, 0, 0, 0, 0, 0, 0, 0, 0, 0x20, 0, 0, 0,
          0x62, 0x50, 0x4b, 5, 6, 0, 0, 0, 0, 2, 0, 2, 0, 0x5e, 0, 0, 0,
          0x41, 0, 0, 0, 0, 0]) = None
   \<and> map (\<lambda>e. (ZipEntry_name ascii_host e, concat (uncompressedStream ascii_host e)))
         (fst (ZipReader_entries [0x50, 0x4b, 3, 4, 0x14, 0, 0, 8, 8, 0, 0, 0, 0, 0, 0x83, 0x16,
          0xdc, 0x8c, 1, 0, 0, 0, 1, 0, 0, 0, 1, 0, 0, 0, 0x61, 0x78, 0x50,
          0x4b, 3, 4, 0x14, 0, 0, 8, 8, 0, 0, 0, 0, 0, 0x62, 0x48, 0xf4,
          0x0f, 2, 0, 0, 0, 2, 0, 0, 0, 1, 0, 0, 0, 0x62, 0x7a, 0x79, 0x50,
          0x4b, 1, 2, 0x14, 0, 0x14, 0, 0, 8, 8, 0, 0, 0, 0, 0, 0x83, 0x16,
          0xdc, 0x8c, 1, 0, 0, 0, 1, 0, 0, 0, 1, 0, 0, 0, 0, 0, 0, 0, 0, 0,
          0, 0, 0, 0, 0, 0, 0, 0, 0x61, 0x50, 0x4b, 1, 2, 0x14, 0, 0x14, 0,
          0, 8, 8, 0, 0, 0, 0, 0, 0x62, 0x48, 0xf4, 0x0f, 2, 0, 0, 0, 2, 0,
          0, 0, 1, 0, 0, 0, 0, 0, 0, 0, 0, 0, 0, 0, 0, 0, 0x20, 0, 0, 0,
          0x62, 0x50, 0x4b, 5, 6, 0, 0, 0, 0, 2, 0, 2, 0, 0x5e, 0, 0, 0,
          0x41, 0, 0, 0, 0, 0]))
       = [([0x61], [0x78]), ([0x62], [0x79, 0x7a])]"
proof -
  have names: "\<forall>(nm, content)\<in>set ([([0x61], [0x78]), ([0x62], [0x79, 0x7a])] :: (js_string \<times> byte list) list).
      fromUtf8 ascii_host (toUtf8 ascii_host nm) = nm \<and> length (toUtf8 ascii_host nm) < 65536"
    by (simp add: fromUtf8_def toUtf8_def ascii_host_def)
  have sizes: "sum_list (map entrySize (entries \<lparr>entries =
          [\<lparr>we_rawName = [0x61], we_flags = 0x0800, we_method = 8, we_compressedSize = 1,
             we_uncompressedSize = 1, we_streamSizeGuess = 1, we_crc32 = 0x8CDC1683,
             we_source = [], we_enqueued = [[0x78]], we_deflate = True,
             we_progressCallback = None\<rparr>,
           \<lparr>we_rawName = [0x62], we_flags = 0x0800, we_method = 8, we_compressedSize = 2,
             we_uncompressedSize = 2, we_streamSizeGuess = 2, we_crc32 = 0x0FF44862,
             we_source = [], we_enqueued = [[0x79, 0x7a]], we_deflate = True,
             we_progressCallback = None\<rparr>]\<rparr>)) < 4294967296"
    "sum_list (map directorySize (entries \<lparr>entries =
          [\<lparr>we_rawName = [0x61], we_flags = 0x0800, we_method = 8, we_compressedSize = 1,
             we_uncompressedSize = 1, we_streamSizeGuess = 1, we_crc32 = 0x8CDC1683,
             we_source = [], we_enqueued = [[0x78]], we_deflate = True,
             we_progressCallback = None\<rparr>,
           \<lparr>we_rawName = [0x62], we_flags = 0x0800, we_method = 8, we_compressedSize = 2,
             we_uncompressedSize = 2, we_streamSizeGuess = 2, we_crc32 = 0x0FF44862,
             we_source = [], we_enqueued = [[0x79, 0x7a]], we_deflate = True,
             we_progressCallback = None\<rparr>]\<rparr>)) < 4294967296"
    by (simp_all add: entrySize_def directorySize_def)
  from write_read_roundtrip [OF ascii_host_inverse ascii_host_stream names roundtrip_example sizes]
    roundtrip_example names
  show ?thesis
    by simp
qed

text \<open>
  A name of 65536 bytes is recorded with the length 0: the reader yields one entry with
  the empty name and then fails on the signature of the next directory entry.
\<close>

lemma entry_data_empty_ascii:
  "we_deflate e \<Longrightarrow> we_enqueued e = [] \<Longrightarrow> entry_data ascii_host e = []"
  by (simp add: entry_data_def compressedStream_def ascii_host_def)

lemma fromBlob_ascii_empty: "zs_stream (fromBlob ascii_host []) = []"
  by (simp add: fromBlob_def ZipSource_new_def ascii_host_def)

theorem long_name_roundtrip_counterexample:
  "fromUtf8 ascii_host (toUtf8 ascii_host (replicate 65536 0x61)) = replicate 65536 0x61
   \<and> \<not> isl (fst (build ascii_host None []
          (fold (\<lambda>(nm, content). addBlob ascii_host nm content None)
             [(replicate 65536 0x61, [])] ZipWriter_new)))
   \<and> map (\<lambda>e. (ZipEntry_name ascii_host e, concat (uncompressedStream ascii_host e)))
         (fst (ZipReader_entries (projr (fst (build ascii_host None []
            (fold (\<lambda>(nm, content). addBlob ascii_host nm content None)
               [(replicate 65536 0x61, [])] ZipWriter_new))))))
       \<noteq> [(replicate 65536 0x61, [])]"
proof -
  let ?nm = "replicate 65536 0x61 :: js_string"
  let ?item = "(?nm, fromBlob ascii_host [], None :: ZipEntryOptions option)"
  let ?B = "build ascii_host None []
          (fold (\<lambda>(nm, content). addBlob ascii_host nm content None) [(?nm, [])] ZipWriter_new)"
  have w: "fold (\<lambda>(nm, content). addBlob ascii_host nm content None) [(?nm, [])] ZipWriter_new
      = added ascii_host [?item]"
    using fold_addBlob_added [of ascii_host None "[(?nm, [])]"] by simp
  have "\<exists>blob w' st'. build ascii_host None [] (added ascii_host [?item]) = (Inr blob, w', st')"
    by (rule build_returns [OF added_no_callbacks]) simp
  then obtain blob w' st' where b: "build ascii_host None [] (added ascii_host [?item]) = (Inr blob, w', st')"
    by blast
  define es where "es = entries w'"
  note layout = build_layout [OF b, folded es_def]
  from layout(1) obtain e where es: "es = [e]"
    by (cases es) auto
  from layout(2) have fin: "finished ascii_host ?item e"
    by (simp add: es)
  then have nm: "we_rawName e = replicate 65536 0x61"
    and enq: "we_enqueued e = []" and dfl: "we_deflate e"
    and cs: "we_compressedSize e = length (entry_data ascii_host e)"
    by (simp_all add: finished_def toUtf8_ascii_host wants_deflate_def fromBlob_ascii_empty)
  from entry_data_empty_ascii [OF dfl enq] cs have cs0: "we_compressedSize e = 0"
    by simp
  have sizes: "entrySize e = 65566" "directorySize e = 65582"
    by (simp_all add: entrySize_def directorySize_def nm cs0)
  have rd: "ZipDirectory_read blob =
     Inr \<lparr>zd_footer =
            \<lparr>ft_diskNumber = 0, ft_diskStart = 0,
             ft_diskEntries = length (entries w') mod 65536,
             ft_totalEntries = length (entries w') mod 65536,
             ft_directorySize = sum_list (map directorySize (entries w')),
             ft_directoryOffset = sum_list (map entrySize (entries w')),
             ft_commentLength = 0\<rparr>,
          zd_data = DataView_new (central_directory (entries w') 0)\<rparr>"
    by (rule ZipDirectory_read_built [OF b]) (simp_all add: es_def [symmetric] es sizes)
  let ?r = "record_of_entry e 0"
  let ?D = "[] @ encode_record_header ?r @ we_rawName e"
  have D: "central_directory (entries w') 0 = ?D"
    by (simp add: es_def [symmetric] es central_header_record)
  have mods: "length (cd_name ?r) mod 65536 = 0" "length (cd_extra ?r) mod 65536 = 0"
    "length (cd_comment ?r) mod 65536 = 0"
    by (simp_all add: record_of_entry_def nm)
  have "ZipDirectoryEntry_new (DataView_new ?D) (length ([] :: byte list)) =
     Inr ((parsed_record ?r)
       \<lparr>de_rawName := take (length (cd_name ?r) mod 65536) (we_rawName e),
        de_rawExtraField := take (length (cd_extra ?r) mod 65536)
           (drop (length (cd_name ?r) mod 65536) (we_rawName e)),
        de_rawComment := take (length (cd_comment ?r) mod 65536)
           (drop (length (cd_name ?r) mod 65536 + length (cd_extra ?r) mod 65536) (we_rawName e))\<rparr>)"
    by (rule parse_encoded_header) (simp add: mods)
  then have p: "ZipDirectoryEntry_new (DataView_new ?D) 0 =
     Inr ((parsed_record ?r)\<lparr>de_rawName := [], de_rawExtraField := [], de_rawComment := []\<rparr>)"
    by (simp add: mods)
  have lt: "0 < dv_byteLength (DataView_new ?D)"
    by (simp add: DataView_new_def)
  have "\<exists>rest thrown. ZipDirectory_entries_from (DataView_new ?D) 0
       = ((parsed_record ?r)\<lparr>de_rawName := [], de_rawExtraField := [], de_rawComment := []\<rparr> # rest,
          thrown)"
    by (subst ZipDirectory_entries_from.simps) (simp only: p lt if_True sum.case split: prod.splits, simp)
  then obtain rest thrown where
    "ZipDirectory_entries_from (DataView_new ?D) 0
       = ((parsed_record ?r)\<lparr>de_rawName := [], de_rawExtraField := [], de_rawComment := []\<rparr> # rest,
          thrown)"
    by blast
  then have "fst (ZipReader_entries blob) =
      map (ZipEntry_fromDirectoryEntry blob)
        ((parsed_record ?r)\<lparr>de_rawName := [], de_rawExtraField := [], de_rawComment := []\<rparr> # rest)"
    by (simp add: ZipReader_entries_def rd ZipDirectory_entries_def D)
  then have "map (\<lambda>e. ZipEntry_name ascii_host e) (fst (ZipReader_entries blob)) \<noteq> [?nm]"
    by (simp add: ZipEntry_name_def fromDirectoryEntry_fields fromUtf8_def ascii_host_def)
  then have "map (\<lambda>e. (ZipEntry_name ascii_host e, concat (uncompressedStream ascii_host e)))
         (fst (ZipReader_entries blob)) \<noteq> [(?nm, [])]"
    by (metis (no_types, lifting) list.simps(8,9) map_map fst_conv comp_apply map_eq_conv)
  moreover have "fromUtf8 ascii_host (toUtf8 ascii_host ?nm) = ?nm"
    by (simp add: fromUtf8_def toUtf8_def ascii_host_def)
  moreover have "?B = (Inr blob, w', st')"
    unfolding w by (rule b)
  ultimately show ?thesis
    by (simp only: fst_conv sum.sel sum.disc simp_thms)
qed

end
